theory Spec2Isabelle
  imports Main
begin

section \<open>The operating system as seen by nsenter.go\<close>

text \<open>
  The program is a straight line of system calls whose answers decide where it stops.
  Every call is recorded as an event together with the answer it got; the kernel is a
  record of answer functions that may look at everything that happened so far, so that
  an answer can depend on earlier calls (an open after a namespace switch can resolve
  differently from one before it).
\<close>

type_synonym fd = nat

text \<open>A Go \<open>error\<close> value, represented by the text its \<open>Error()\<close> method returns.\<close>

type_synonym errno = string

text \<open>
  \<open>exec.Cmd\<close>: the fields the program touches. \<open>SysProcAttr\<close> holds the clone flags
  when set, and is \<open>None\<close> for the nil pointer \<open>exec.Command\<close> leaves there.
\<close>

record cmd =
  Path :: string
  Args :: "string list"
  StdioInherited :: bool
  SysProcAttr :: "int option"

text \<open>
  What \<open>cmd.Run()\<close> can observe: the child could not be started, or it was started and
  waited for, ending with an exit status.
\<close>

datatype run_result = StartFailed errno | ChildExited int

datatype event =
    Usage
  | LockOSThread
  | UnlockOSThread
  | Open string "errno + fd"
  | Close fd
  | Unshare int "errno option"
  | Setns fd int "errno option"
  | Stdout string
  | Stderr string
  | LogFatalf string
  | BuiltinPrintln string errno
  | Run cmd run_result
  | Exec string "string list" "string list" "errno option"

record kernel =
  k_open :: "event list \<Rightarrow> string \<Rightarrow> errno + fd"
  k_unshare :: "event list \<Rightarrow> int \<Rightarrow> errno option"
  k_setns :: "event list \<Rightarrow> fd \<Rightarrow> int \<Rightarrow> errno option"
  k_lookpath :: "event list \<Rightarrow> string \<Rightarrow> string"
  k_run :: "event list \<Rightarrow> cmd \<Rightarrow> run_result"
  k_exec :: "event list \<Rightarrow> string \<Rightarrow> string list \<Rightarrow> string list \<Rightarrow> errno option"

text \<open>How the process ends: with an exit status, or replaced by another program image.\<close>

datatype outcome = Exited int | Replaced string "string list" "string list"

subsection \<open>The calls, each extending the history by its event\<close>

definition sys_open :: "kernel \<Rightarrow> event list \<Rightarrow> string \<Rightarrow> event list \<times> (errno + fd)" where
  "sys_open k h path = (let r = k_open k h path in (h @ [Open path r], r))"

definition sys_unshare :: "kernel \<Rightarrow> event list \<Rightarrow> int \<Rightarrow> event list \<times> errno option" where
  "sys_unshare k h flags = (let r = k_unshare k h flags in (h @ [Unshare flags r], r))"

definition sys_setns :: "kernel \<Rightarrow> event list \<Rightarrow> fd \<Rightarrow> int \<Rightarrow> event list \<times> errno option" where
  "sys_setns k h f nstype = (let r = k_setns k h f nstype in (h @ [Setns f nstype r], r))"

section \<open>Constants and formatting\<close>

text \<open>The clone flags of \<open>golang.org/x/sys/unix\<close> on Linux.\<close>

definition CLONE_NEWNS :: int where "CLONE_NEWNS = 0x00020000"
definition CLONE_NEWUTS :: int where "CLONE_NEWUTS = 0x04000000"
definition CLONE_NEWIPC :: int where "CLONE_NEWIPC = 0x08000000"
definition CLONE_NEWUSER :: int where "CLONE_NEWUSER = 0x10000000"
definition CLONE_NEWPID :: int where "CLONE_NEWPID = 0x20000000"
definition CLONE_NEWNET :: int where "CLONE_NEWNET = 0x40000000"

definition nsMap :: "string \<rightharpoonup> int" where
  "nsMap = [''mnt'' \<mapsto> CLONE_NEWNS, ''net'' \<mapsto> CLONE_NEWNET, ''ipc'' \<mapsto> CLONE_NEWIPC,
            ''uts'' \<mapsto> CLONE_NEWUTS, ''user'' \<mapsto> CLONE_NEWUSER, ''pid'' \<mapsto> CLONE_NEWPID]"

text \<open>The verb \<open>%d\<close> of \<open>fmt\<close>: decimal digits, with a minus sign for a negative number.\<close>

definition digit_char :: "nat \<Rightarrow> char" where
  "digit_char d = ''0123456789'' ! d"

fun show_nat :: "nat \<Rightarrow> string" where
  "show_nat n = (if n < 10 then [digit_char n] else show_nat (n div 10) @ [digit_char (n mod 10)])"

declare show_nat.simps [simp del]

definition show_int :: "int \<Rightarrow> string" where
  "show_int i = (if i < 0 then ''-'' @ show_nat (nat (- i)) else show_nat (nat i))"

text \<open>\<open>fmt.Sprintf("/proc/%d/ns/%s", pid, nsType)\<close>\<close>

definition ns_path :: "int \<Rightarrow> string \<Rightarrow> string" where
  "ns_path p nsType = ''/proc/'' @ show_int p @ ''/ns/'' @ nsType"

section \<open>enterNamespace\<close>

text \<open>
  The four error returns of \<open>enterNamespace\<close>, one constructor for each, and the text
  each \<open>fmt.Errorf\<close> produces.
\<close>

datatype ns_error =
    OpenFailed string errno
  | Unsupported string
  | UnshareFailed errno
  | SetnsFailed string errno

fun error_msg :: "ns_error \<Rightarrow> string" where
  "error_msg (OpenFailed nsType e) = ''failed to open namespace '' @ nsType @ '': '' @ e"
| "error_msg (Unsupported nsType) = ''unsupported namespace: '' @ nsType"
| "error_msg (UnshareFailed e) = ''unshare mnt before setns: '' @ e"
| "error_msg (SetnsFailed nsType e) = ''setns for '' @ nsType @ '' failed: '' @ e"

text \<open>
  The tail of \<open>enterNamespace\<close> from the \<open>unix.Setns\<close> call on. The deferred
  \<open>fd.Close()\<close> runs at each return that follows the successful open.
\<close>

definition setns_and_close ::
  "kernel \<Rightarrow> event list \<Rightarrow> fd \<Rightarrow> int \<Rightarrow> string \<Rightarrow> event list \<times> ns_error option" where
  "setns_and_close k h f nsConst nsType =
     (case sys_setns k h f nsConst of
        (h', Some e) \<Rightarrow> (h' @ [Close f], Some (SetnsFailed nsType e))
      | (h', None) \<Rightarrow> (h' @ [Close f], None))"

definition enterNamespace ::
  "kernel \<Rightarrow> event list \<Rightarrow> int \<Rightarrow> string \<Rightarrow> event list \<times> ns_error option" where
  "enterNamespace k h p nsType =
     (case sys_open k h (ns_path p nsType) of
        (h1, Inl e) \<Rightarrow> (h1, Some (OpenFailed nsType e))
      | (h1, Inr f) \<Rightarrow>
          (case nsMap nsType of
             None \<Rightarrow> (h1 @ [Close f], Some (Unsupported nsType))
           | Some nsConst \<Rightarrow>
               if nsType = ''mnt'' then
                 (case sys_unshare k h1 CLONE_NEWNS of
                    (h2, Some e) \<Rightarrow> (h2 @ [Close f], Some (UnshareFailed e))
                  | (h2, None) \<Rightarrow> setns_and_close k h2 f nsConst nsType)
               else setns_and_close k h1 f nsConst nsType))"

section \<open>main\<close>

text \<open>
  What \<open>flag.Parse\<close> and the environment hand to \<open>main\<close>: the target (default \<open>-1\<close>),
  the five selectors, the positional arguments, the value of \<open>SHELL\<close> (empty when
  unset) and the environment block.
\<close>

record invocation =
  pid :: int
  mntNs :: bool
  utsNs :: bool
  netNs :: bool
  ipcNs :: bool
  pidNs :: bool
  positional :: "string list"
  shell :: string
  environ :: "string list"

text \<open>Lines 67 to 78: the command and its arguments.\<close>

definition choose_command :: "invocation \<Rightarrow> string \<times> string list" where
  "choose_command iv =
     (case positional iv of
        [] \<Rightarrow> (if shell iv = [] then (''/bin/sh'', []) else (shell iv, []))
      | c # rest \<Rightarrow> (c, rest))"

text \<open>
  The pattern of lines 90 to 104 and 116 to 120: when the selector is set, join the
  namespace, and on an error \<open>log.Fatalf\<close> prints and exits with status 1. The second
  component is the outcome when the process ended here.
\<close>

definition enter_or_die ::
  "kernel \<Rightarrow> event list \<Rightarrow> bool \<Rightarrow> int \<Rightarrow> string \<Rightarrow> event list \<times> outcome option" where
  "enter_or_die k h wanted p nsType =
     (if wanted then
        (case enterNamespace k h p nsType of
           (h', Some err) \<Rightarrow>
             (h' @ [LogFatalf (''Failed to enter '' @ nsType @ '' namespace: '' @ error_msg err)],
              Some (Exited 1))
         | (h', None) \<Rightarrow> (h', None))
      else (h, None))"

text \<open>Lines 90 to 104: UTS, then network, then IPC.\<close>

definition join_simple :: "kernel \<Rightarrow> event list \<Rightarrow> invocation \<Rightarrow> event list \<times> outcome option" where
  "join_simple k h iv =
     (case enter_or_die k h (utsNs iv) (pid iv) ''uts'' of
        (h1, Some out) \<Rightarrow> (h1, Some out)
      | (h1, None) \<Rightarrow>
          (case enter_or_die k h1 (netNs iv) (pid iv) ''net'' of
             (h2, Some out) \<Rightarrow> (h2, Some out)
           | (h2, None) \<Rightarrow> enter_or_die k h2 (ipcNs iv) (pid iv) ''ipc''))"

text \<open>
  Lines 108 to 113: the handle on the target's PID namespace file, opened whatever the
  selectors are. \<open>fmt.Println\<close> prints its operands separated by spaces, the format
  string as it stands.
\<close>

definition open_pid_handle :: "kernel \<Rightarrow> event list \<Rightarrow> invocation \<Rightarrow> event list \<times> (outcome + fd)" where
  "open_pid_handle k h iv =
     (let nsPath = ns_path (pid iv) ''pid'' in
      case sys_open k h nsPath of
        (h1, Inl err) \<Rightarrow>
          (h1 @ [Stdout (''open %s: %w '' @ nsPath @ '' '' @ err @ [CHR 0x0A])], Inl (Exited 1))
      | (h1, Inr pidFD) \<Rightarrow> (h1, Inr pidFD))"

definition advisory :: string where
  "advisory = ''For now, there's a strange bug - if you don't get a new mount namespace, ps and similar command do not work properly''"

text \<open>
  Lines 123 to 132: the PID namespace, bound by this process through the handle opened
  above. The result is the value of \<open>needsFork\<close>, which line 85 set to false.
\<close>

definition bind_pid :: "kernel \<Rightarrow> event list \<Rightarrow> invocation \<Rightarrow> fd \<Rightarrow> event list \<times> (outcome + bool)" where
  "bind_pid k h iv pidFD =
     (if pidNs iv then
        (case sys_setns k h pidFD (case nsMap ''pid'' of Some c \<Rightarrow> c | None \<Rightarrow> 0) of
           (h1, Some err) \<Rightarrow>
             (h1 @ [BuiltinPrintln ''setns for pid failed: %v'' err], Inl (Exited 1))
         | (h1, None) \<Rightarrow>
             (if \<not> mntNs iv then (h1 @ [Stdout (advisory @ [CHR 0x0A])], Inr True)
              else (h1, Inr True)))
      else (h, Inr False))"

text \<open>
  \<open>cmd.Run()\<close> returns an error when the child could not be started and when it ended
  with a status other than 0.
\<close>

definition run_error :: "run_result \<Rightarrow> errno option" where
  "run_error r =
     (case r of
        StartFailed e \<Rightarrow> Some e
      | ChildExited s \<Rightarrow> if s = 0 then None else Some (''exit status '' @ show_int s))"

text \<open>
  \<open>exec.Command(name, arg...)\<close> of the Go library: \<open>Path\<close> is the name, and \<open>Args\<close> the
  name followed by the arguments. When the name has no directory part, that is when
  \<open>filepath.Base(name) == name\<close>, the name is searched for with \<open>exec.LookPath\<close>
  and \<open>Path\<close> becomes what the search found. The search reads the file system as the
  process sees it at that moment, so its answer is the kernel's (\<open>k_lookpath\<close>, the
  empty string when nothing was found); it leaves no event of its own in the trace.
  \<open>filepath.Base\<close> on Unix: the last element of the path, trailing slashes dropped
  first; a dot for the empty path and a slash for a path of slashes only.
\<close>

definition filepath_Base :: "string \<Rightarrow> string" where
  "filepath_Base path =
     (if path = [] then ''.''
      else let stripped = rev (dropWhile (\<lambda>c. c = CHR ''/'') (rev path));
               elem = rev (takeWhile (\<lambda>c. c \<noteq> CHR ''/'') (rev stripped))
           in if elem = [] then ''/'' else elem)"

definition Command :: "kernel \<Rightarrow> event list \<Rightarrow> string \<Rightarrow> string list \<Rightarrow> cmd" where
  "Command k h name arg =
     (let c = \<lparr>Path = name, Args = name # arg, StdioInherited = False, SysProcAttr = None\<rparr>
      in if filepath_Base name = name then
           (let lp = k_lookpath k h name
            in if lp \<noteq> [] then c\<lparr>Path := lp\<rparr> else c)
         else c)"

text \<open>
  Lines 135 to 155. In the fork branch the command is run to completion with the
  structure as \<open>exec.Command\<close> built it and the three standard streams set;
  \<open>SysProcAttr\<close> is assigned afterwards. When \<open>main\<close> returns, its deferred calls run
  in reverse order and the process exits with status 0. In the other branch
  \<open>unix.Exec\<close> is given the command as it stands, with no search.
\<close>

definition launch ::
  "kernel \<Rightarrow> event list \<Rightarrow> invocation \<Rightarrow> fd \<Rightarrow> bool \<Rightarrow> string \<Rightarrow> string list \<Rightarrow> event list \<times> outcome" where
  "launch k h iv pidFD needsFork command args =
     (if needsFork then
        (let c = Command k h command args;
             c = c\<lparr>StdioInherited := True\<rparr>;
             r = k_run k h c;
             h1 = h @ [Run c r]
         in case run_error r of
              Some err \<Rightarrow> (h1 @ [Stderr (''exec failed: '' @ err @ [CHR 0x0A])], Exited 1)
            | None \<Rightarrow>
                (let c = c\<lparr>SysProcAttr := Some CLONE_NEWPID\<rparr>
                 in (h1 @ [Close pidFD, UnlockOSThread], Exited 0)))
      else
        (let argv = [command] @ args;
             r = k_exec k h command argv (environ iv);
             h1 = h @ [Exec command argv (environ iv) r]
         in case r of
              Some err \<Rightarrow>
                (h1 @ [Stderr (''exec '' @ command @ '': '' @ err @ [CHR 0x0A])], Exited 1)
            | None \<Rightarrow> (h1, Replaced command argv (environ iv))))"

text \<open>Lines 85 to 155, entered once the arguments have passed the check of line 80.\<close>

definition join_and_launch ::
  "kernel \<Rightarrow> invocation \<Rightarrow> string \<Rightarrow> string list \<Rightarrow> event list \<times> outcome" where
  "join_and_launch k iv command args =
     (case join_simple k [LockOSThread] iv of
        (h1, Some out) \<Rightarrow> (h1, out)
      | (h1, None) \<Rightarrow>
          (case open_pid_handle k h1 iv of
             (h2, Inl out) \<Rightarrow> (h2, out)
           | (h2, Inr pidFD) \<Rightarrow>
               (case enter_or_die k h2 (mntNs iv) (pid iv) ''mnt'' of
                  (h3, Some out) \<Rightarrow> (h3, out)
                | (h3, None) \<Rightarrow>
                    (case bind_pid k h3 iv pidFD of
                       (h4, Inl out) \<Rightarrow> (h4, out)
                     | (h4, Inr needsFork) \<Rightarrow> launch k h4 iv pidFD needsFork command args))))"

definition main :: "kernel \<Rightarrow> invocation \<Rightarrow> event list \<times> outcome" where
  "main k iv =
     (let (command, args) = choose_command iv in
      if pid iv < 0 \<or> command = [] then ([Usage], Exited 1)
      else join_and_launch k iv command args)"

section \<open>Vocabulary for traces\<close>

text \<open>
  The first component of \<open>main\<close> is the trace: the calls made by the invoking process,
  in the order it made them. A bind is a \<open>setns\<close> call; the namespace kind it binds is
  told by its clone flag. The simple kinds are UTS, network and IPC.
\<close>

definition is_bind :: "int \<Rightarrow> event \<Rightarrow> bool" where
  "is_bind c e = (case e of Setns f c' r \<Rightarrow> c' = c | _ \<Rightarrow> False)"

definition is_simple_bind :: "event \<Rightarrow> bool" where
  "is_simple_bind e = (is_bind CLONE_NEWUTS e \<or> is_bind CLONE_NEWNET e \<or> is_bind CLONE_NEWIPC e)"

text \<open>An open of the given path, whatever its answer.\<close>

definition is_open_of :: "string \<Rightarrow> event \<Rightarrow> bool" where
  "is_open_of path e = (case e of Open p r \<Rightarrow> p = path | _ \<Rightarrow> False)"

text \<open>Every event that satisfies \<open>P\<close> stands at a smaller index than every event that satisfies \<open>Q\<close>.\<close>

definition all_before :: "(event \<Rightarrow> bool) \<Rightarrow> (event \<Rightarrow> bool) \<Rightarrow> event list \<Rightarrow> bool" where
  "all_before P Q tr = (\<forall>i<length tr. \<forall>j<length tr. P (tr ! i) \<and> Q (tr ! j) \<longrightarrow> i < j)"

text \<open>The binds of a stretch of the trace all carry a flag of the set \<open>C\<close>.\<close>

definition binds_within :: "int set \<Rightarrow> event list \<Rightarrow> bool" where
  "binds_within C es = (\<forall>e\<in>set es. \<forall>f c r. e = Setns f c r \<longrightarrow> c \<in> C)"

text \<open>
  A failed step is an open, an unshare or a bind that the kernel answered with an error.
  A step is any open, unshare, bind or launch, whatever its answer; closing a
  descriptor and printing are not steps.
\<close>

definition failed_step :: "event \<Rightarrow> bool" where
  "failed_step e =
     (case e of
        Open p (Inl err) \<Rightarrow> True
      | Unshare fl (Some err) \<Rightarrow> True
      | Setns f c (Some err) \<Rightarrow> True
      | _ \<Rightarrow> False)"

definition is_step :: "event \<Rightarrow> bool" where
  "is_step e =
     (case e of
        Open p r \<Rightarrow> True
      | Unshare fl r \<Rightarrow> True
      | Setns f c r \<Rightarrow> True
      | Run c r \<Rightarrow> True
      | Exec c a en r \<Rightarrow> True
      | _ \<Rightarrow> False)"

definition clean :: "event list \<Rightarrow> bool" where
  "clean es = (\<not> list_ex failed_step es)"

definition quiet :: "event list \<Rightarrow> bool" where
  "quiet es = (\<not> list_ex is_step es)"

text \<open>After the first failed step of a trace no further step is taken.\<close>

fun fail_fast :: "event list \<Rightarrow> bool" where
  "fail_fast [] = True"
| "fail_fast (e # es) = (if failed_step e then quiet es else fail_fast es)"

text \<open>The two launches: spawning a child and waiting for it, and replacing the process image.\<close>

definition is_run :: "event \<Rightarrow> bool" where
  "is_run e = (case e of Run c r \<Rightarrow> True | _ \<Rightarrow> False)"

definition is_exec :: "event \<Rightarrow> bool" where
  "is_exec e = (case e of Exec c a en r \<Rightarrow> True | _ \<Rightarrow> False)"

definition is_launch :: "event \<Rightarrow> bool" where
  "is_launch e = (is_run e \<or> is_exec e)"

text \<open>The check of line 80, negated: the invocation gets past the usage message.\<close>

definition valid :: "invocation \<Rightarrow> bool" where
  "valid iv = (\<not> (pid iv < 0 \<or> fst (choose_command iv) = []))"

text \<open>
  Shorthands for what lines 108 to 147 append to the trace when nothing fails: the
  path of the handle, the events of the PID block, the command structure as it is
  when \<open>Run\<close> is called (built by \<open>exec.Command\<close> at the history reached, with the
  standard streams set), the launch event, and the exit status after \<open>Run\<close>.
\<close>

definition pid_path :: "invocation \<Rightarrow> string" where
  "pid_path iv = ns_path (pid iv) ''pid''"

definition pid_events :: "invocation \<Rightarrow> fd \<Rightarrow> event list" where
  "pid_events iv f =
     (if pidNs iv
      then Setns f CLONE_NEWPID None # (if mntNs iv then [] else [Stdout (advisory @ [CHR 0x0A])])
      else [])"

definition cmd_at_run :: "kernel \<Rightarrow> event list \<Rightarrow> string \<Rightarrow> string list \<Rightarrow> cmd" where
  "cmd_at_run k h command args = (Command k h command args)\<lparr>StdioInherited := True\<rparr>"

definition started :: "kernel \<Rightarrow> event list \<Rightarrow> invocation \<Rightarrow> cmd" where
  "started k h iv = cmd_at_run k h (fst (choose_command iv)) (snd (choose_command iv))"

definition launch_event :: "kernel \<Rightarrow> event list \<Rightarrow> invocation \<Rightarrow> event" where
  "launch_event k h iv =
     (let c = fst (choose_command iv); a = snd (choose_command iv) in
      if pidNs iv then Run (started k h iv) (k_run k h (started k h iv))
      else Exec c (c # a) (environ iv) (k_exec k h c (c # a) (environ iv)))"

definition fork_status :: "run_result \<Rightarrow> int" where
  "fork_status r = (case r of StartFailed err \<Rightarrow> 1 | ChildExited s \<Rightarrow> if s = 0 then 0 else 1)"

section \<open>Kernels and invocations to run the program on\<close>

text \<open>
  A kernel that grants everything, hands out the lowest free descriptor above the
  three standard streams and finds every bare command name in \<open>/bin\<close>, and variants
  of it: one where the target process does not
  exist, one where the caller lacks the privilege for \<open>unshare\<close> and \<open>setns\<close>, and
  one where the spawned child ends with a given status.
\<close>

definition open_fds :: "event list \<Rightarrow> nat" where
  "open_fds h =
     length (filter (\<lambda>e. case e of Open p (Inr f) \<Rightarrow> True | _ \<Rightarrow> False) h)
     - length (filter (\<lambda>e. case e of Close f \<Rightarrow> True | _ \<Rightarrow> False) h)"

definition cooperative :: kernel where
  "cooperative =
     \<lparr>k_open = (\<lambda>h p. Inr (3 + open_fds h)),
      k_unshare = (\<lambda>h fl. None),
      k_setns = (\<lambda>h f c. None),
      k_lookpath = (\<lambda>h name. ''/bin/'' @ name),
      k_run = (\<lambda>h c. ChildExited 0),
      k_exec = (\<lambda>h c a e. None)\<rparr>"

definition no_such_process :: kernel where
  "no_such_process =
     cooperative\<lparr>k_open := (\<lambda>h p. Inl (''open '' @ p @ '': no such file or directory''))\<rparr>"

definition unprivileged :: kernel where
  "unprivileged =
     cooperative\<lparr>k_unshare := (\<lambda>h fl. Some ''operation not permitted''),
                 k_setns := (\<lambda>h f c. Some ''operation not permitted'')\<rparr>"

definition child_exits :: "int \<Rightarrow> kernel" where
  "child_exits s = cooperative\<lparr>k_run := (\<lambda>h c. ChildExited s)\<rparr>"

text \<open>
  Invocations: every kind at once, and the scenarios A (UTS and network, \<open>/bin/ls\<close>),
  B (PID only, \<open>/bin/echo hi\<close>), B with the bare command name \<open>echo\<close>, and C (target
  99999, mount only, no command and no \<open>SHELL\<close>).
\<close>

definition request ::
  "int \<Rightarrow> bool \<Rightarrow> bool \<Rightarrow> bool \<Rightarrow> bool \<Rightarrow> bool \<Rightarrow> string list \<Rightarrow> invocation" where
  "request p m u n i pd cmdline =
     \<lparr>pid = p, mntNs = m, utsNs = u, netNs = n, ipcNs = i, pidNs = pd,
      positional = cmdline, shell = [], environ = [''PATH=/bin'']\<rparr>"

definition every_kind :: invocation where
  "every_kind = request 4242 True True True True True [''/bin/ls'']"

definition scenario_A :: invocation where
  "scenario_A = request 4242 False True True False False [''/bin/ls'']"

definition scenario_B :: invocation where
  "scenario_B = request 4242 False False False False True [''/bin/echo'', ''hi'']"

definition scenario_B_bare :: invocation where
  "scenario_B_bare = request 4242 False False False False True [''echo'', ''hi'']"

definition scenario_C :: invocation where
  "scenario_C = request 99999 True False False False False []"

section \<open>Facts about the vocabulary\<close>

lemmas clone_flags =
  CLONE_NEWNS_def CLONE_NEWUTS_def CLONE_NEWNET_def CLONE_NEWIPC_def CLONE_NEWPID_def CLONE_NEWUSER_def

lemma nsMap_known [simp]:
  "nsMap ''uts'' = Some CLONE_NEWUTS" "nsMap ''net'' = Some CLONE_NEWNET"
  "nsMap ''ipc'' = Some CLONE_NEWIPC" "nsMap ''mnt'' = Some CLONE_NEWNS"
  "nsMap ''pid'' = Some CLONE_NEWPID"
  by (simp_all add: nsMap_def)

lemma binds_within_Nil [simp]: "binds_within C []"
  by (simp add: binds_within_def)

lemma binds_within_append [simp]:
  "binds_within C (xs @ ys) = (binds_within C xs \<and> binds_within C ys)"
  by (auto simp: binds_within_def)

lemma binds_within_Cons [simp]:
  "binds_within C (e # es) = ((\<forall>f c r. e = Setns f c r \<longrightarrow> c \<in> C) \<and> binds_within C es)"
  by (auto simp: binds_within_def)

lemma binds_within_mono: "binds_within C es \<Longrightarrow> C \<subseteq> D \<Longrightarrow> binds_within D es"
  by (auto simp: binds_within_def)

lemma binds_within_no_bind:
  "binds_within C es \<Longrightarrow> c \<notin> C \<Longrightarrow> \<forall>e\<in>set es. \<not> is_bind c e"
  by (auto simp: binds_within_def is_bind_def split: event.splits)

lemma no_mount_bind:
  "binds_within {CLONE_NEWUTS, CLONE_NEWNET, CLONE_NEWIPC} es \<Longrightarrow> \<forall>e\<in>set es. \<not> is_bind CLONE_NEWNS e"
  by (erule binds_within_no_bind) (simp add: clone_flags)

lemma is_bind_simps [simp]:
  "is_bind c (Setns f c' u) = (c' = c)"
  "\<not> is_bind c (Run cm rr)" "\<not> is_bind c (Exec pth a en u)"
  "\<not> is_bind c (Open p r)" "\<not> is_bind c (Unshare fl u)"
  "\<not> is_bind c (Close f)" "\<not> is_bind c (Stdout s)" "\<not> is_bind c (Stderr s)"
  "\<not> is_bind c (LogFatalf s)" "\<not> is_bind c (BuiltinPrintln s err)"
  "\<not> is_bind c Usage" "\<not> is_bind c LockOSThread" "\<not> is_bind c UnlockOSThread"
  by (simp_all add: is_bind_def)

lemma is_run_simps [simp]:
  "is_run (Run cm rr)" "\<not> is_run (Exec pth a en u)"
  "\<not> is_run (Open p r)" "\<not> is_run (Unshare fl u)" "\<not> is_run (Setns f c u)"
  "\<not> is_run (Close f)" "\<not> is_run (Stdout s)" "\<not> is_run (Stderr s)"
  "\<not> is_run (LogFatalf s)" "\<not> is_run (BuiltinPrintln s err)"
  "\<not> is_run Usage" "\<not> is_run LockOSThread" "\<not> is_run UnlockOSThread"
  by (simp_all add: is_run_def)

lemma is_launch_simps [simp]:
  "is_launch (Run cm rr)" "is_launch (Exec pth a en u)"
  "\<not> is_launch (Open p r)" "\<not> is_launch (Unshare fl u)" "\<not> is_launch (Setns f c u)"
  "\<not> is_launch (Close f)" "\<not> is_launch (Stdout s)" "\<not> is_launch (Stderr s)"
  "\<not> is_launch (LogFatalf s)" "\<not> is_launch (BuiltinPrintln s err)"
  "\<not> is_launch Usage" "\<not> is_launch LockOSThread" "\<not> is_launch UnlockOSThread"
  by (simp_all add: is_launch_def is_run_def is_exec_def)

lemma failed_step_simps [simp]:
  "failed_step (Open p r) = (case r of Inl err \<Rightarrow> True | Inr f \<Rightarrow> False)"
  "failed_step (Unshare fl u) = (u \<noteq> None)"
  "failed_step (Setns f c u) = (u \<noteq> None)"
  "\<not> failed_step (Close f)" "\<not> failed_step (Stdout s)" "\<not> failed_step (Stderr s)"
  "\<not> failed_step (LogFatalf s)" "\<not> failed_step (BuiltinPrintln s err)"
  "\<not> failed_step (Run cm rr)" "\<not> failed_step (Exec pth a en u)"
  "\<not> failed_step Usage" "\<not> failed_step LockOSThread" "\<not> failed_step UnlockOSThread"
  by (auto simp: failed_step_def split: sum.splits option.splits)

lemma is_step_simps [simp]:
  "is_step (Open p r)" "is_step (Unshare fl u)" "is_step (Setns f c u)"
  "is_step (Run cm rr)" "is_step (Exec pth a en u)"
  "\<not> is_step (Close f)" "\<not> is_step (Stdout s)" "\<not> is_step (Stderr s)"
  "\<not> is_step (LogFatalf s)" "\<not> is_step (BuiltinPrintln s err)"
  "\<not> is_step Usage" "\<not> is_step LockOSThread" "\<not> is_step UnlockOSThread"
  by (simp_all add: is_step_def)

lemma failed_is_step: "failed_step e \<Longrightarrow> is_step e"
  by (cases e) (auto split: sum.splits)

lemma clean_simps [simp]:
  "clean []" "clean (e # es) = (\<not> failed_step e \<and> clean es)"
  "clean (xs @ ys) = (clean xs \<and> clean ys)"
  by (auto simp: clean_def)

lemma quiet_simps [simp]:
  "quiet []" "quiet (e # es) = (\<not> is_step e \<and> quiet es)"
  "quiet (xs @ ys) = (quiet xs \<and> quiet ys)"
  by (auto simp: quiet_def)

lemma quiet_clean: "quiet es \<Longrightarrow> clean es"
  by (auto simp: quiet_def clean_def list_ex_iff dest: failed_is_step)

lemma clean_fail_fast: "clean es \<Longrightarrow> fail_fast es"
  by (induction es) auto

lemma fail_fast_append:
  "fail_fast (xs @ ys) = (if clean xs then fail_fast ys else fail_fast xs \<and> quiet ys)"
  by (induction xs) (auto dest: quiet_clean clean_fail_fast)

lemma pid_events_no_launch [simp]: "\<not> list_ex is_launch (pid_events iv f)"
  by (simp add: pid_events_def)

text \<open>Three facts about positions in a list that is cut into a front, one event and a rest.\<close>

lemma all_before_split:
  assumes "\<forall>e\<in>set xs. \<not> Q e" and "\<forall>e\<in>set ys. \<not> P e"
  shows "all_before P Q (xs @ ys)"
  unfolding all_before_def
proof (intro allI impI)
  fix i j
  assume i: "i < length (xs @ ys)" and j: "j < length (xs @ ys)"
    and pq: "P ((xs @ ys) ! i) \<and> Q ((xs @ ys) ! j)"
  have "i < length xs"
  proof (rule ccontr)
    assume "\<not> i < length xs"
    with i have "(xs @ ys) ! i \<in> set ys" by (simp add: nth_append)
    with assms(2) pq show False by blast
  qed
  moreover have "length xs \<le> j"
  proof (rule ccontr)
    assume "\<not> length xs \<le> j"
    then have "(xs @ ys) ! j \<in> set xs" by (simp add: nth_append)
    with assms(1) pq show False by blast
  qed
  ultimately show "i < j" by simp
qed

lemma only_index:
  assumes "tr = pre @ x # post" and "\<not> list_ex P pre" and "\<not> list_ex P post"
    and "j < length tr" and "P (tr ! j)"
  shows "j = length pre"
proof (rule ccontr)
  assume n: "j \<noteq> length pre"
  show False
  proof (cases "j < length pre")
    case True
    with assms(1) have "tr ! j \<in> set pre" by (simp add: nth_append)
    with assms(2,5) show False by (auto simp: list_ex_iff)
  next
    case False
    with n have gt: "length pre < j" by simp
    then obtain d where d: "j = length pre + Suc d" by (metis less_imp_Suc_add add_Suc_right)
    with assms(1,4) have "tr ! j = post ! d" "d < length post" by (simp_all add: nth_append)
    then have "tr ! j \<in> set post" by simp
    with assms(3,5) show False by (auto simp: list_ex_iff)
  qed
qed

lemma after_prefix:
  assumes "tr = h1 @ x # rest" and "\<forall>e\<in>set h1. \<not> Q e" and "\<not> Q x"
    and "j < length tr" and "Q (tr ! j)"
  shows "length h1 < j"
proof (rule ccontr)
  assume "\<not> length h1 < j"
  then consider "j < length h1" | "j = length h1" by linarith
  then show False
  proof cases
    case 1
    with assms(1) have "tr ! j \<in> set h1" by (simp add: nth_append)
    with assms(2,5) show False by blast
  next
    case 2
    with assms(1) have "tr ! j = x" by simp
    with assms(3,5) show False by simp
  qed
qed

lemma fail_fast_nth:
  "fail_fast tr \<Longrightarrow> i < length tr \<Longrightarrow> failed_step (tr ! i) \<Longrightarrow> j < length tr \<Longrightarrow> i < j
     \<Longrightarrow> \<not> is_step (tr ! j)"
proof (induction tr arbitrary: i j)
  case Nil
  then show ?case by simp
next
  case (Cons e es)
  show ?case
  proof (cases "failed_step e")
    case True
    with Cons.prems have "quiet es" by simp
    moreover from Cons.prems have "(e # es) ! j \<in> set es" by (cases j) auto
    ultimately show ?thesis by (auto simp: quiet_def list_ex_iff)
  next
    case False
    with Cons.prems obtain i' where i': "i = Suc i'" by (cases i) auto
    with Cons.prems obtain j' where j': "j = Suc j'" by (cases j) auto
    from False Cons.prems have "fail_fast es" by simp
    from Cons.IH [OF this, of i' j'] Cons.prems i' j' show ?thesis by simp
  qed
qed

section \<open>The phases of main, one at a time\<close>

text \<open>Each phase extends the history it is given, and binds nothing but its own kinds.\<close>

lemma enterNamespace_binds:
  assumes "enterNamespace k h p nsType = (h', r)" and "nsMap nsType = Some c"
  shows "\<exists>es. h' = h @ es \<and> binds_within {c} es"
  using assms
  by (auto simp: enterNamespace_def setns_and_close_def sys_open_def sys_unshare_def sys_setns_def
      Let_def split: sum.splits option.splits if_splits prod.splits)

lemma enter_or_die_binds:
  assumes "enter_or_die k h w p nsType = (h', r)" and "nsMap nsType = Some c"
  shows "\<exists>es. h' = h @ es \<and> binds_within {c} es"
proof (cases w)
  case False
  with assms show ?thesis by (simp add: enter_or_die_def)
next
  case True
  obtain h1 r1 where e: "enterNamespace k h p nsType = (h1, r1)" by (cases "enterNamespace k h p nsType")
  from enterNamespace_binds [OF e assms(2)] obtain es where "h1 = h @ es" "binds_within {c} es" by blast
  with assms(1) True e show ?thesis
    by (cases r1) (auto simp: enter_or_die_def)
qed

lemma join_simple_binds:
  assumes "join_simple k h iv = (h', r)"
  shows "\<exists>es. h' = h @ es \<and> binds_within {CLONE_NEWUTS, CLONE_NEWNET, CLONE_NEWIPC} es"
proof -
  obtain h1 r1 where a: "enter_or_die k h (utsNs iv) (pid iv) ''uts'' = (h1, r1)"
    by (cases "enter_or_die k h (utsNs iv) (pid iv) ''uts''")
  obtain h2 r2 where b: "enter_or_die k h1 (netNs iv) (pid iv) ''net'' = (h2, r2)"
    by (cases "enter_or_die k h1 (netNs iv) (pid iv) ''net''")
  obtain h3 r3 where c: "enter_or_die k h2 (ipcNs iv) (pid iv) ''ipc'' = (h3, r3)"
    by (cases "enter_or_die k h2 (ipcNs iv) (pid iv) ''ipc''")
  from enter_or_die_binds [OF a] obtain e1 where e1: "h1 = h @ e1" "binds_within {CLONE_NEWUTS} e1"
    by auto
  from enter_or_die_binds [OF b] obtain e2 where e2: "h2 = h1 @ e2" "binds_within {CLONE_NEWNET} e2"
    by auto
  from enter_or_die_binds [OF c] obtain e3 where e3: "h3 = h2 @ e3" "binds_within {CLONE_NEWIPC} e3"
    by auto
  from assms a b c e1 e2 e3 show ?thesis
    by (auto simp: join_simple_def split: option.splits intro: binds_within_mono)
qed

lemma open_pid_handle_binds:
  "open_pid_handle k h iv = (h', r) \<Longrightarrow> \<exists>es. h' = h @ es \<and> binds_within {} es"
  by (auto simp: open_pid_handle_def sys_open_def Let_def split: sum.splits)

lemma bind_pid_binds:
  "bind_pid k h iv f = (h', r) \<Longrightarrow> \<exists>es. h' = h @ es \<and> binds_within {CLONE_NEWPID} es"
  by (auto simp: bind_pid_def sys_setns_def Let_def split: if_splits option.splits)

lemma launch_binds:
  "launch k h iv f nf c a = (h', r) \<Longrightarrow> \<exists>es. h' = h @ es \<and> binds_within {} es"
  by (auto simp: launch_def Let_def split: if_splits option.splits)

text \<open>
  A phase either goes on, all its steps having succeeded, or ends the process with
  status 1 right after its first failed step.
\<close>

lemma enterNamespace_fate:
  assumes "enterNamespace k h p nsType = (h', r)"
  shows "\<exists>es. h' = h @ es \<and> fail_fast es \<and> (r = None \<longrightarrow> clean es)"
  using assms
  by (auto simp: enterNamespace_def setns_and_close_def sys_open_def sys_unshare_def sys_setns_def
      Let_def split: sum.splits option.splits if_splits prod.splits)

lemma enter_or_die_fate:
  assumes "enter_or_die k h w p nsType = (h', r)"
  shows "\<exists>es. h' = h @ es \<and> fail_fast es \<and> (case r of None \<Rightarrow> clean es | Some out \<Rightarrow> out = Exited 1)"
proof (cases w)
  case False
  with assms show ?thesis by (simp add: enter_or_die_def)
next
  case True
  obtain h1 r1 where e: "enterNamespace k h p nsType = (h1, r1)" by (cases "enterNamespace k h p nsType")
  from enterNamespace_fate [OF e] obtain es where
    "h1 = h @ es" "fail_fast es" "r1 = None \<longrightarrow> clean es" by blast
  with assms True e show ?thesis
    by (cases r1) (auto simp: enter_or_die_def fail_fast_append)
qed

lemma join_simple_fate:
  assumes "join_simple k h iv = (h', r)"
  shows "\<exists>es. h' = h @ es \<and> fail_fast es \<and> (case r of None \<Rightarrow> clean es | Some out \<Rightarrow> out = Exited 1)"
proof -
  obtain h1 r1 where a: "enter_or_die k h (utsNs iv) (pid iv) ''uts'' = (h1, r1)"
    by (cases "enter_or_die k h (utsNs iv) (pid iv) ''uts''")
  obtain h2 r2 where b: "enter_or_die k h1 (netNs iv) (pid iv) ''net'' = (h2, r2)"
    by (cases "enter_or_die k h1 (netNs iv) (pid iv) ''net''")
  obtain h3 r3 where c: "enter_or_die k h2 (ipcNs iv) (pid iv) ''ipc'' = (h3, r3)"
    by (cases "enter_or_die k h2 (ipcNs iv) (pid iv) ''ipc''")
  from enter_or_die_fate [OF a] obtain e1 where e1: "h1 = h @ e1" "fail_fast e1"
    "case r1 of None \<Rightarrow> clean e1 | Some out \<Rightarrow> out = Exited 1" by blast
  from enter_or_die_fate [OF b] obtain e2 where e2: "h2 = h1 @ e2" "fail_fast e2"
    "case r2 of None \<Rightarrow> clean e2 | Some out \<Rightarrow> out = Exited 1" by blast
  from enter_or_die_fate [OF c] obtain e3 where e3: "h3 = h2 @ e3" "fail_fast e3"
    "case r3 of None \<Rightarrow> clean e3 | Some out \<Rightarrow> out = Exited 1" by blast
  show ?thesis
  proof (cases r1)
    case (Some o1)
    with assms a have "h' = h1" "r = Some o1" by (simp_all add: join_simple_def)
    with e1 Some show ?thesis by simp
  next
    case None
    note n1 = this
    with e1 have c1: "clean e1" by simp
    show ?thesis
    proof (cases r2)
      case (Some o2)
      with assms a b n1 have "h' = h2" "r = Some o2" by (simp_all add: join_simple_def)
      with e1 e2 c1 Some show ?thesis
        by (intro exI [of _ "e1 @ e2"]) (simp add: fail_fast_append)
    next
      case None
      with e2 have c2: "clean e2" by simp
      from assms a b c n1 None have "h' = h3" "r = r3" by (simp_all add: join_simple_def)
      with e1 e2 e3 c1 c2 show ?thesis
        by (intro exI [of _ "e1 @ e2 @ e3"]) (simp add: fail_fast_append split: option.splits)
    qed
  qed
qed

lemma open_pid_handle_fate:
  "open_pid_handle k h iv = (h', r) \<Longrightarrow>
     \<exists>es. h' = h @ es \<and> fail_fast es \<and> (case r of Inr f \<Rightarrow> clean es | Inl out \<Rightarrow> out = Exited 1)"
  by (auto simp: open_pid_handle_def sys_open_def Let_def split: sum.splits)

lemma bind_pid_fate:
  "bind_pid k h iv f = (h', r) \<Longrightarrow>
     \<exists>es. h' = h @ es \<and> fail_fast es \<and> (case r of Inr nf \<Rightarrow> clean es | Inl out \<Rightarrow> out = Exited 1)"
  by (auto simp: bind_pid_def sys_setns_def Let_def split: if_splits option.splits)

lemma launch_fate:
  "launch k h iv f nf c a = (h', out) \<Longrightarrow> \<exists>es. h' = h @ es \<and> clean es"
  by (auto simp: launch_def Let_def split: if_splits option.splits)

text \<open>A phase that ends the process has a failed step to show for it.\<close>

lemma enterNamespace_exit_unclean:
  "enterNamespace k h p nsType = (h', Some err) \<Longrightarrow> nsMap nsType = Some c \<Longrightarrow>
     \<exists>es. h' = h @ es \<and> \<not> clean es"
  by (auto simp: enterNamespace_def setns_and_close_def sys_open_def sys_unshare_def sys_setns_def
      Let_def split: sum.splits option.splits if_splits prod.splits)

lemma enter_or_die_exit_unclean:
  assumes "enter_or_die k h w p nsType = (h', Some out)" and "nsMap nsType = Some c"
  shows "\<exists>es. h' = h @ es \<and> \<not> clean es"
proof (cases w)
  case False
  with assms show ?thesis by (simp add: enter_or_die_def)
next
  case True
  obtain h1 r1 where e: "enterNamespace k h p nsType = (h1, r1)" by (cases "enterNamespace k h p nsType")
  with assms True obtain err where r1: "r1 = Some err"
    by (cases r1) (auto simp: enter_or_die_def)
  from enterNamespace_exit_unclean [OF e [unfolded r1] assms(2)] obtain es where
    "h1 = h @ es" "\<not> clean es" by blast
  with assms True e r1 show ?thesis
    by (auto simp: enter_or_die_def)
qed

lemma join_simple_exit_unclean:
  assumes "join_simple k h iv = (h', Some out)"
  shows "\<not> clean h'"
proof -
  obtain h1 r1 where a: "enter_or_die k h (utsNs iv) (pid iv) ''uts'' = (h1, r1)"
    by (cases "enter_or_die k h (utsNs iv) (pid iv) ''uts''")
  obtain h2 r2 where b: "enter_or_die k h1 (netNs iv) (pid iv) ''net'' = (h2, r2)"
    by (cases "enter_or_die k h1 (netNs iv) (pid iv) ''net''")
  obtain h3 r3 where c: "enter_or_die k h2 (ipcNs iv) (pid iv) ''ipc'' = (h3, r3)"
    by (cases "enter_or_die k h2 (ipcNs iv) (pid iv) ''ipc''")
  show ?thesis
  proof (cases r1)
    case (Some o1)
    from enter_or_die_exit_unclean [OF a [unfolded Some]] assms a Some show ?thesis
      by (auto simp: join_simple_def)
  next
    case None
    note n1 = this
    show ?thesis
    proof (cases r2)
      case (Some o2)
      from enter_or_die_exit_unclean [OF b [unfolded Some]] assms a b n1 Some show ?thesis
        by (auto simp: join_simple_def)
    next
      case None
      with assms a b c n1 obtain o3 where r3: "r3 = Some o3" "h' = h3"
        by (cases r3) (auto simp: join_simple_def)
      from enter_or_die_exit_unclean [OF c [unfolded r3(1)]] r3 show ?thesis
        by auto
    qed
  qed
qed

text \<open>No phase before the last one launches anything.\<close>

lemma enterNamespace_no_launch:
  "enterNamespace k h p nsType = (h', r) \<Longrightarrow> \<exists>es. h' = h @ es \<and> \<not> list_ex is_launch es"
  by (auto simp: enterNamespace_def setns_and_close_def sys_open_def sys_unshare_def sys_setns_def
      Let_def split: sum.splits option.splits if_splits prod.splits)

lemma enter_or_die_no_launch:
  assumes "enter_or_die k h w p nsType = (h', r)"
  shows "\<exists>es. h' = h @ es \<and> \<not> list_ex is_launch es"
proof (cases w)
  case False
  with assms show ?thesis by (simp add: enter_or_die_def)
next
  case True
  obtain h1 r1 where e: "enterNamespace k h p nsType = (h1, r1)" by (cases "enterNamespace k h p nsType")
  from enterNamespace_no_launch [OF e] obtain es where "h1 = h @ es" "\<not> list_ex is_launch es" by blast
  with assms True e show ?thesis
    by (cases r1) (auto simp: enter_or_die_def)
qed

lemma join_simple_no_launch:
  assumes "join_simple k h iv = (h', r)"
  shows "\<exists>es. h' = h @ es \<and> \<not> list_ex is_launch es"
proof -
  obtain h1 r1 where a: "enter_or_die k h (utsNs iv) (pid iv) ''uts'' = (h1, r1)"
    by (cases "enter_or_die k h (utsNs iv) (pid iv) ''uts''")
  obtain h2 r2 where b: "enter_or_die k h1 (netNs iv) (pid iv) ''net'' = (h2, r2)"
    by (cases "enter_or_die k h1 (netNs iv) (pid iv) ''net''")
  obtain h3 r3 where c: "enter_or_die k h2 (ipcNs iv) (pid iv) ''ipc'' = (h3, r3)"
    by (cases "enter_or_die k h2 (ipcNs iv) (pid iv) ''ipc''")
  from enter_or_die_no_launch [OF a] obtain e1 where e1: "h1 = h @ e1" "\<not> list_ex is_launch e1" by blast
  from enter_or_die_no_launch [OF b] obtain e2 where e2: "h2 = h1 @ e2" "\<not> list_ex is_launch e2" by blast
  from enter_or_die_no_launch [OF c] obtain e3 where e3: "h3 = h2 @ e3" "\<not> list_ex is_launch e3" by blast
  from assms a b c e1 e2 e3 show ?thesis
    by (auto simp: join_simple_def split: option.splits)
qed

text \<open>The three short phases, event by event.\<close>

lemma open_pid_handle_Inr:
  "open_pid_handle k h iv = (h', Inr f) \<Longrightarrow> h' = h @ [Open (ns_path (pid iv) ''pid'') (Inr f)]"
  by (auto simp: open_pid_handle_def sys_open_def Let_def split: sum.splits)

lemma open_pid_handle_Inr_answer:
  "open_pid_handle k h iv = (h', Inr f) \<Longrightarrow> k_open k h (ns_path (pid iv) ''pid'') = Inr f"
  by (auto simp: open_pid_handle_def sys_open_def Let_def split: sum.splits)

lemma open_pid_handle_Inl:
  "open_pid_handle k h iv = (h', Inl out) \<Longrightarrow>
     out = Exited 1 \<and>
     (\<exists>err. k_open k h (ns_path (pid iv) ''pid'') = Inl err \<and>
        h' = h @ [Open (ns_path (pid iv) ''pid'') (Inl err),
                  Stdout (''open %s: %w '' @ ns_path (pid iv) ''pid'' @ '' '' @ err @ [CHR 0x0A])])"
  by (auto simp: open_pid_handle_def sys_open_def Let_def split: sum.splits)

lemma bind_pid_Inr:
  "bind_pid k h iv f = (h', Inr nf) \<Longrightarrow>
     nf = pidNs iv \<and>
     h' = h @ (if pidNs iv
               then Setns f CLONE_NEWPID None #
                    (if mntNs iv then [] else [Stdout (advisory @ [CHR 0x0A])])
               else [])"
  by (auto simp: bind_pid_def sys_setns_def Let_def split: if_splits option.splits)

lemma bind_pid_Inr_events:
  "bind_pid k h iv f = (h', Inr nf) \<Longrightarrow> nf = pidNs iv \<and> h' = h @ pid_events iv f"
  by (drule bind_pid_Inr) (simp add: pid_events_def)

lemma bind_pid_Inl:
  "bind_pid k h iv f = (h', Inl out) \<Longrightarrow>
     pidNs iv \<and> out = Exited 1 \<and>
     (\<exists>err. h' = h @ [Setns f CLONE_NEWPID (Some err), BuiltinPrintln ''setns for pid failed: %v'' err])"
  by (auto simp: bind_pid_def sys_setns_def Let_def split: if_splits option.splits)

lemma launch_fork:
  "launch k h iv f True c a = (h', out) \<Longrightarrow>
     (\<exists>post. h' = h @ Run (cmd_at_run k h c a) (k_run k h (cmd_at_run k h c a)) # post \<and>
        \<not> list_ex is_launch post) \<and>
     out = Exited (case k_run k h (cmd_at_run k h c a) of
                     StartFailed err \<Rightarrow> 1
                   | ChildExited s \<Rightarrow> if s = 0 then 0 else 1)"
  by (auto simp: launch_def cmd_at_run_def run_error_def Let_def split: option.splits run_result.splits if_splits)

lemma launch_replace:
  "launch k h iv f False c a = (h', out) \<Longrightarrow>
     (\<exists>post. h' = h @ Exec c (c # a) (environ iv) (k_exec k h c (c # a) (environ iv)) # post
        \<and> \<not> list_ex is_launch post)"
  by (auto simp: launch_def Let_def split: option.splits)

section \<open>A whole run\<close>

lemma main_valid:
  "valid iv \<Longrightarrow> main k iv = join_and_launch k iv (fst (choose_command iv)) (snd (choose_command iv))"
  by (auto simp: valid_def main_def split: prod.splits)

lemma main_invalid: "\<not> valid iv \<Longrightarrow> main k iv = ([Usage], Exited 1)"
  by (auto simp: valid_def main_def split: prod.splits)

text \<open>The five places where a run of a valid invocation can end.\<close>

lemma join_and_launch_phases:
  obtains
    (simple_exit) h1 out where
      "join_simple k [LockOSThread] iv = (h1, Some out)"
      "join_and_launch k iv c a = (h1, out)"
  | (open_exit) h1 h2 out where
      "join_simple k [LockOSThread] iv = (h1, None)"
      "open_pid_handle k h1 iv = (h2, Inl out)"
      "join_and_launch k iv c a = (h2, out)"
  | (mnt_exit) h1 h2 pidFD h3 out where
      "join_simple k [LockOSThread] iv = (h1, None)"
      "open_pid_handle k h1 iv = (h2, Inr pidFD)"
      "enter_or_die k h2 (mntNs iv) (pid iv) ''mnt'' = (h3, Some out)"
      "join_and_launch k iv c a = (h3, out)"
  | (pid_exit) h1 h2 pidFD h3 h4 out where
      "join_simple k [LockOSThread] iv = (h1, None)"
      "open_pid_handle k h1 iv = (h2, Inr pidFD)"
      "enter_or_die k h2 (mntNs iv) (pid iv) ''mnt'' = (h3, None)"
      "bind_pid k h3 iv pidFD = (h4, Inl out)"
      "join_and_launch k iv c a = (h4, out)"
  | (launched) h1 h2 pidFD h3 h4 needsFork where
      "join_simple k [LockOSThread] iv = (h1, None)"
      "open_pid_handle k h1 iv = (h2, Inr pidFD)"
      "enter_or_die k h2 (mntNs iv) (pid iv) ''mnt'' = (h3, None)"
      "bind_pid k h3 iv pidFD = (h4, Inr needsFork)"
      "join_and_launch k iv c a = launch k h4 iv pidFD needsFork c a"
proof -
  obtain h1 r1 where p1: "join_simple k [LockOSThread] iv = (h1, r1)"
    by (cases "join_simple k [LockOSThread] iv")
  obtain h2 r2 where p2: "open_pid_handle k h1 iv = (h2, r2)"
    by (cases "open_pid_handle k h1 iv")
  show thesis
  proof (cases r1)
    case (Some out)
    with p1 show thesis by (intro simple_exit [of h1 out]) (simp_all add: join_and_launch_def)
  next
    case None
    note n1 = this
    show thesis
    proof (cases r2)
      case (Inl out)
      with p1 p2 n1 show thesis
        by (intro open_exit [of h1 h2 out]) (simp_all add: join_and_launch_def)
    next
      case (Inr pidFD)
      note n2 = this
      obtain h3 r3 where p3: "enter_or_die k h2 (mntNs iv) (pid iv) ''mnt'' = (h3, r3)"
        by (cases "enter_or_die k h2 (mntNs iv) (pid iv) ''mnt''")
      obtain h4 r4 where p4: "bind_pid k h3 iv pidFD = (h4, r4)"
        by (cases "bind_pid k h3 iv pidFD")
      show thesis
      proof (cases r3)
        case (Some out)
        with p1 p2 p3 n1 n2 show thesis
          by (intro mnt_exit [of h1 h2 pidFD h3 out]) (simp_all add: join_and_launch_def)
      next
        case None
        note n3 = this
        show thesis
        proof (cases r4)
          case (Inl out)
          with p1 p2 p3 p4 n1 n2 n3 show thesis
            by (intro pid_exit [of h1 h2 pidFD h3 h4 out]) (simp_all add: join_and_launch_def)
        next
          case (Inr needsFork)
          with p1 p2 p3 p4 n1 n2 n3 show thesis
            by (intro launched [of h1 h2 pidFD h3 h4 needsFork]) (simp_all add: join_and_launch_def)
        qed
      qed
    qed
  qed
qed

text \<open>
  The trace in three stretches: simple binds only, then mount binds only, then PID
  binds only.
\<close>

lemma join_and_launch_layout:
  "\<exists>a m d. fst (join_and_launch k iv c a') = a @ m @ d
     \<and> binds_within {CLONE_NEWUTS, CLONE_NEWNET, CLONE_NEWIPC} a
     \<and> binds_within {CLONE_NEWNS} m
     \<and> binds_within {CLONE_NEWPID} d"
proof (cases rule: join_and_launch_phases [of k iv c a'])
  case (simple_exit h1 out)
  from join_simple_binds [OF simple_exit(1)] obtain e1 where
    "h1 = [LockOSThread] @ e1" "binds_within {CLONE_NEWUTS, CLONE_NEWNET, CLONE_NEWIPC} e1" by blast
  with simple_exit(2) show ?thesis
    by (intro exI [of _ h1] exI [of _ "[]"]) simp
next
  case (open_exit h1 h2 out)
  from join_simple_binds [OF open_exit(1)] obtain e1 where
    e1: "h1 = [LockOSThread] @ e1" "binds_within {CLONE_NEWUTS, CLONE_NEWNET, CLONE_NEWIPC} e1" by blast
  from open_pid_handle_binds [OF open_exit(2)] obtain e2 where
    e2: "h2 = h1 @ e2" "binds_within {} e2" by blast
  from e2(2) have "binds_within {CLONE_NEWUTS, CLONE_NEWNET, CLONE_NEWIPC} e2"
    by (rule binds_within_mono) simp
  with e1 e2 open_exit(3) show ?thesis
    by (intro exI [of _ h2] exI [of _ "[]"]) simp
next
  case (mnt_exit h1 h2 pidFD h3 out)
  from join_simple_binds [OF mnt_exit(1)] obtain e1 where
    e1: "h1 = [LockOSThread] @ e1" "binds_within {CLONE_NEWUTS, CLONE_NEWNET, CLONE_NEWIPC} e1" by blast
  from open_pid_handle_binds [OF mnt_exit(2)] obtain e2 where
    e2: "h2 = h1 @ e2" "binds_within {} e2" by blast
  from enter_or_die_binds [OF mnt_exit(3)] obtain e3 where
    e3: "h3 = h2 @ e3" "binds_within {CLONE_NEWNS} e3" by auto
  from e2(2) have "binds_within {CLONE_NEWUTS, CLONE_NEWNET, CLONE_NEWIPC} e2"
    by (rule binds_within_mono) simp
  with e1 e2 e3 mnt_exit(4) show ?thesis
    by (intro exI [of _ h2] exI [of _ e3] exI [of _ "[]"]) simp
next
  case (pid_exit h1 h2 pidFD h3 h4 out)
  from join_simple_binds [OF pid_exit(1)] obtain e1 where
    e1: "h1 = [LockOSThread] @ e1" "binds_within {CLONE_NEWUTS, CLONE_NEWNET, CLONE_NEWIPC} e1" by blast
  from open_pid_handle_binds [OF pid_exit(2)] obtain e2 where
    e2: "h2 = h1 @ e2" "binds_within {} e2" by blast
  from enter_or_die_binds [OF pid_exit(3)] obtain e3 where
    e3: "h3 = h2 @ e3" "binds_within {CLONE_NEWNS} e3" by auto
  from bind_pid_binds [OF pid_exit(4)] obtain e4 where
    e4: "h4 = h3 @ e4" "binds_within {CLONE_NEWPID} e4" by blast
  from e2(2) have "binds_within {CLONE_NEWUTS, CLONE_NEWNET, CLONE_NEWIPC} e2"
    by (rule binds_within_mono) simp
  with e1 e2 e3 e4 pid_exit(5) show ?thesis
    by (intro exI [of _ h2] exI [of _ e3] exI [of _ e4]) simp
next
  case (launched h1 h2 pidFD h3 h4 needsFork)
  from join_simple_binds [OF launched(1)] obtain e1 where
    e1: "h1 = [LockOSThread] @ e1" "binds_within {CLONE_NEWUTS, CLONE_NEWNET, CLONE_NEWIPC} e1" by blast
  from open_pid_handle_binds [OF launched(2)] obtain e2 where
    e2: "h2 = h1 @ e2" "binds_within {} e2" by blast
  from enter_or_die_binds [OF launched(3)] obtain e3 where
    e3: "h3 = h2 @ e3" "binds_within {CLONE_NEWNS} e3" by auto
  from bind_pid_binds [OF launched(4)] obtain e4 where
    e4: "h4 = h3 @ e4" "binds_within {CLONE_NEWPID} e4" by blast
  obtain h5 out where l: "launch k h4 iv pidFD needsFork c a' = (h5, out)"
    by (cases "launch k h4 iv pidFD needsFork c a'")
  from launch_binds [OF l] obtain e5 where e5: "h5 = h4 @ e5" "binds_within {} e5" by blast
  from e2(2) have b2: "binds_within {CLONE_NEWUTS, CLONE_NEWNET, CLONE_NEWIPC} e2"
    by (rule binds_within_mono) simp
  from e5(2) have b5: "binds_within {CLONE_NEWPID} e5"
    by (rule binds_within_mono) simp
  from e1 e2 e3 e4 e5 b2 b5 launched(5) l show ?thesis
    by (intro exI [of _ h2] exI [of _ e3] exI [of _ "e4 @ e5"]) simp
qed

lemma main_layout:
  "\<exists>a m d. fst (main k iv) = a @ m @ d
     \<and> binds_within {CLONE_NEWUTS, CLONE_NEWNET, CLONE_NEWIPC} a
     \<and> binds_within {CLONE_NEWNS} m
     \<and> binds_within {CLONE_NEWPID} d"
proof (cases "pid iv < 0 \<or> fst (choose_command iv) = []")
  case True
  then have "fst (main k iv) = [Usage]"
    by (auto simp: main_def split: prod.splits)
  then show ?thesis
    by (intro exI [of _ "[Usage]"] exI [of _ "[]"]) simp
next
  case False
  then have "main k iv = join_and_launch k iv (fst (choose_command iv)) (snd (choose_command iv))"
    by (auto simp: main_def split: prod.splits)
  with join_and_launch_layout show ?thesis by simp
qed

lemma join_and_launch_fate:
  assumes "join_and_launch k iv c a = (tr, out)"
  shows "fail_fast tr \<and> (\<not> clean tr \<longrightarrow> out = Exited 1)"
proof (cases rule: join_and_launch_phases [of k iv c a])
  case (simple_exit h1 out')
  from join_simple_fate [OF simple_exit(1)] simple_exit(2) assms show ?thesis
    by (auto simp: fail_fast_append)
next
  case (open_exit h1 h2 out')
  from join_simple_fate [OF open_exit(1)] open_pid_handle_fate [OF open_exit(2)] open_exit(3) assms
  show ?thesis
    by (auto simp: fail_fast_append)
next
  case (mnt_exit h1 h2 pidFD h3 out')
  from join_simple_fate [OF mnt_exit(1)] open_pid_handle_fate [OF mnt_exit(2)]
    enter_or_die_fate [OF mnt_exit(3)] mnt_exit(4) assms
  show ?thesis
    by (auto simp: fail_fast_append)
next
  case (pid_exit h1 h2 pidFD h3 h4 out')
  from join_simple_fate [OF pid_exit(1)] open_pid_handle_fate [OF pid_exit(2)]
    enter_or_die_fate [OF pid_exit(3)] bind_pid_fate [OF pid_exit(4)] pid_exit(5) assms
  show ?thesis
    by (auto simp: fail_fast_append)
next
  case (launched h1 h2 pidFD h3 h4 needsFork)
  from launched(5) assms have l: "launch k h4 iv pidFD needsFork c a = (tr, out)" by simp
  from join_simple_fate [OF launched(1)] open_pid_handle_fate [OF launched(2)]
    enter_or_die_fate [OF launched(3)] bind_pid_fate [OF launched(4)] launch_fate [OF l]
  have "clean tr" by auto
  then show ?thesis by (simp add: clean_fail_fast)
qed

lemma main_fate: "fail_fast (fst (main k iv)) \<and> (\<not> clean (fst (main k iv)) \<longrightarrow> snd (main k iv) = Exited 1)"
proof (cases "pid iv < 0 \<or> fst (choose_command iv) = []")
  case True
  then have "main k iv = ([Usage], Exited 1)"
    by (auto simp: main_def split: prod.splits)
  then show ?thesis by simp
next
  case False
  then have m: "main k iv = join_and_launch k iv (fst (choose_command iv)) (snd (choose_command iv))"
    by (auto simp: main_def split: prod.splits)
  from join_and_launch_fate [of k iv _ _ "fst (main k iv)" "snd (main k iv)"] m
  show ?thesis by simp
qed

text \<open>A run of a valid invocation in which no step failed went through every phase.\<close>

lemma clean_main_launched:
  assumes "valid iv" and "clean (fst (main k iv))"
  obtains h1 f h3 where
    "join_simple k [LockOSThread] iv = (h1, None)"
    "enter_or_die k (h1 @ [Open (pid_path iv) (Inr f)]) (mntNs iv) (pid iv) ''mnt'' = (h3, None)"
    "bind_pid k h3 iv f =
       (h3 @ pid_events iv f, Inr (pidNs iv))"
    "main k iv =
       launch k (h3 @ pid_events iv f) iv f (pidNs iv) (fst (choose_command iv)) (snd (choose_command iv))"
proof -
  let ?c = "fst (choose_command iv)" and ?a = "snd (choose_command iv)"
  have m: "main k iv = join_and_launch k iv ?c ?a" using assms(1) by (rule main_valid)
  show thesis
  proof (cases rule: join_and_launch_phases [of k iv ?c ?a])
    case (simple_exit h1 out)
    from join_simple_exit_unclean [OF simple_exit(1)] simple_exit(2) m assms(2) show thesis by simp
  next
    case (open_exit h1 h2 out)
    from open_pid_handle_Inl [OF open_exit(2)] open_exit(3) m assms(2) show thesis by auto
  next
    case (mnt_exit h1 h2 pidFD h3 out)
    from enter_or_die_exit_unclean [OF mnt_exit(3)] mnt_exit(4) m assms(2) show thesis by auto
  next
    case (pid_exit h1 h2 pidFD h3 h4 out)
    from bind_pid_Inl [OF pid_exit(4)] pid_exit(5) m assms(2) show thesis by auto
  next
    case (launched h1 h2 pidFD h3 h4 needsFork)
    from open_pid_handle_Inr [OF launched(2)] have h2: "h2 = h1 @ [Open (pid_path iv) (Inr pidFD)]"
      by (simp add: pid_path_def)
    from bind_pid_Inr_events [OF launched(4)] have nf: "needsFork = pidNs iv"
      and h4: "h4 = h3 @ pid_events iv pidFD" by blast+
    show thesis
      using launched(1) launched(3) [unfolded h2] launched(4) [unfolded h4 nf]
        launched(5) [unfolded h4 nf] m
      by (intro that [of h1 pidFD h3]) simp_all
  qed
qed

text \<open>
  A trace with a launch in it: the invocation was valid, the handle was opened, and the
  launch is the one event of its kind.
\<close>

lemma launch_only_at_end:
  assumes "list_ex is_launch (fst (main k iv))"
  obtains h1 f h3 h4 where
    "valid iv"
    "join_simple k [LockOSThread] iv = (h1, None)"
    "enter_or_die k (h1 @ [Open (pid_path iv) (Inr f)]) (mntNs iv) (pid iv) ''mnt'' = (h3, None)"
    "h4 = h3 @ pid_events iv f"
    "\<not> list_ex is_launch h4"
    "main k iv = launch k h4 iv f (pidNs iv) (fst (choose_command iv)) (snd (choose_command iv))"
proof -
  let ?c = "fst (choose_command iv)" and ?a = "snd (choose_command iv)"
  have v: "valid iv"
    using assms main_invalid [of iv k] by (cases "valid iv") auto
  then have m: "main k iv = join_and_launch k iv ?c ?a" by (rule main_valid)
  show thesis
  proof (cases rule: join_and_launch_phases [of k iv ?c ?a])
    case (simple_exit h1 out)
    from join_simple_no_launch [OF simple_exit(1)] simple_exit(2) m assms show thesis by auto
  next
    case (open_exit h1 h2 out)
    from join_simple_no_launch [OF open_exit(1)] open_pid_handle_Inl [OF open_exit(2)]
      open_exit(3) m assms show thesis by auto
  next
    case (mnt_exit h1 h2 pidFD h3 out)
    from join_simple_no_launch [OF mnt_exit(1)] open_pid_handle_Inr [OF mnt_exit(2)]
      enter_or_die_no_launch [OF mnt_exit(3)] mnt_exit(4) m assms show thesis by auto
  next
    case (pid_exit h1 h2 pidFD h3 h4 out)
    from join_simple_no_launch [OF pid_exit(1)] open_pid_handle_Inr [OF pid_exit(2)]
      enter_or_die_no_launch [OF pid_exit(3)] bind_pid_Inl [OF pid_exit(4)] pid_exit(5) m assms
    show thesis by auto
  next
    case (launched h1 h2 pidFD h3 h4 needsFork)
    from open_pid_handle_Inr [OF launched(2)] have h2: "h2 = h1 @ [Open (pid_path iv) (Inr pidFD)]"
      by (simp add: pid_path_def)
    from bind_pid_Inr_events [OF launched(4)] have nf: "needsFork = pidNs iv"
      and h4: "h4 = h3 @ pid_events iv pidFD" by blast+
    from join_simple_no_launch [OF launched(1)] enter_or_die_no_launch [OF launched(3)] h2 h4
    have nl: "\<not> list_ex is_launch h4" by auto
    show thesis
      using v launched(1) launched(3) [unfolded h2] h4 nl launched(5) [unfolded nf] m
      by (intro that [of h1 pidFD h3 h4]) simp_all
  qed
qed

lemma launch_anatomy:
  assumes "list_ex is_launch (fst (main k iv))"
  obtains h1 f e3 pre post where
    "valid iv"
    "join_simple k [LockOSThread] iv = (h1, None)"
    "pre = h1 @ Open (pid_path iv) (Inr f) # e3 @ pid_events iv f"
    "fst (main k iv) = pre @ launch_event k pre iv # post"
    "\<not> list_ex is_launch pre"
    "\<not> list_ex is_launch post"
    "pidNs iv \<longrightarrow> snd (main k iv) = Exited (fork_status (k_run k pre (started k pre iv)))"
proof -
  let ?c = "fst (choose_command iv)" and ?a = "snd (choose_command iv)"
  from assms obtain h1 f h3 h4 where
    v: "valid iv"
    and js: "join_simple k [LockOSThread] iv = (h1, None)"
    and mn: "enter_or_die k (h1 @ [Open (pid_path iv) (Inr f)]) (mntNs iv) (pid iv) ''mnt'' = (h3, None)"
    and h4: "h4 = h3 @ pid_events iv f"
    and nl: "\<not> list_ex is_launch h4"
    and m: "main k iv = launch k h4 iv f (pidNs iv) ?c ?a"
    by (rule launch_only_at_end)
  from enter_or_die_no_launch [OF mn] obtain e3 where
    h3: "h3 = h1 @ Open (pid_path iv) (Inr f) # e3" by auto
  from h3 h4 have pre: "h4 = h1 @ Open (pid_path iv) (Inr f) # e3 @ pid_events iv f" by simp
  obtain tr out where mo: "main k iv = (tr, out)" by (cases "main k iv")
  show thesis
  proof (cases "pidNs iv")
    case True
    with m mo have "launch k h4 iv f True ?c ?a = (tr, out)" by simp
    from launch_fork [OF this] obtain post where
      "tr = h4 @ Run (cmd_at_run k h4 ?c ?a) (k_run k h4 (cmd_at_run k h4 ?c ?a)) # post" "\<not> list_ex is_launch post"
      "out = Exited (case k_run k h4 (cmd_at_run k h4 ?c ?a) of StartFailed err \<Rightarrow> 1
                   | ChildExited s \<Rightarrow> if s = 0 then 0 else 1)" by blast
    with True v js nl pre mo show thesis
      by (intro that [of h1 h4 f e3 post]) (simp_all add: launch_event_def Let_def started_def fork_status_def)
  next
    case False
    with m mo have "launch k h4 iv f False ?c ?a = (tr, out)" by simp
    from launch_replace [OF this] obtain post where
      "tr = h4 @ Exec ?c (?c # ?a) (environ iv) (k_exec k h4 ?c (?c # ?a) (environ iv)) # post"
      "\<not> list_ex is_launch post" by blast
    with False v js nl pre mo show thesis
      by (intro that [of h1 h4 f e3 post]) (simp_all add: launch_event_def Let_def)
  qed
qed

text \<open>Past the simple joins: the open of the handle and what follows it.\<close>

lemma past_handle:
  assumes "join_and_launch k iv c a = (tr, out)"
  shows "(\<exists>h1 o1. join_simple k [LockOSThread] iv = (h1, Some o1) \<and> tr = h1) \<or>
         (\<exists>h1 err. join_simple k [LockOSThread] iv = (h1, None) \<and>
            k_open k h1 (pid_path iv) = Inl err \<and> out = Exited 1 \<and>
            tr = h1 @ [Open (pid_path iv) (Inl err),
                       Stdout (''open %s: %w '' @ pid_path iv @ '' '' @ err @ [CHR 0x0A])]) \<or>
         (\<exists>h1 f rest. join_simple k [LockOSThread] iv = (h1, None) \<and>
            k_open k h1 (pid_path iv) = Inr f \<and> tr = h1 @ Open (pid_path iv) (Inr f) # rest)"
proof (cases rule: join_and_launch_phases [of k iv c a])
  case (simple_exit h1 out')
  with assms show ?thesis by simp
next
  case (open_exit h1 h2 out')
  from open_pid_handle_Inl [OF open_exit(2)] open_exit(1,3) assms show ?thesis
    by (auto simp: pid_path_def)
next
  case (mnt_exit h1 h2 pidFD h3 out')
  from enter_or_die_no_launch [OF mnt_exit(3)] obtain e3 where "h3 = h2 @ e3" by blast
  with open_pid_handle_Inr [OF mnt_exit(2)] open_pid_handle_Inr_answer [OF mnt_exit(2)]
    mnt_exit(1,4) assms show ?thesis
    by (auto simp: pid_path_def)
next
  case (pid_exit h1 h2 pidFD h3 h4 out')
  from enter_or_die_no_launch [OF pid_exit(3)] obtain e3 where "h3 = h2 @ e3" by blast
  moreover from bind_pid_binds [OF pid_exit(4)] obtain e4 where "h4 = h3 @ e4" by blast
  ultimately show ?thesis
    using open_pid_handle_Inr [OF pid_exit(2)] open_pid_handle_Inr_answer [OF pid_exit(2)]
      pid_exit(1,5) assms
    by (auto simp: pid_path_def)
next
  case (launched h1 h2 pidFD h3 h4 needsFork)
  from enter_or_die_no_launch [OF launched(3)] obtain e3 where "h3 = h2 @ e3" by blast
  moreover from bind_pid_binds [OF launched(4)] obtain e4 where "h4 = h3 @ e4" by blast
  moreover from launched(5) assms have "launch k h4 iv pidFD needsFork c a = (tr, out)" by simp
  from launch_binds [OF this] obtain e5 where "tr = h4 @ e5" by blast
  ultimately show ?thesis
    using open_pid_handle_Inr [OF launched(2)] open_pid_handle_Inr_answer [OF launched(2)]
      launched(1)
    by (auto simp: pid_path_def)
qed

lemma mnt_success_shape:
  "es = [Open p (Inr f), Unshare c None, Setns f c r, Close f] \<Longrightarrow>
     (\<forall>j<length es. is_bind c (es ! j) \<longrightarrow> (\<exists>i<j. es ! i = Unshare c None))"
proof (intro allI impI)
  fix j
  assume es: "es = [Open p (Inr f), Unshare c None, Setns f c r, Close f]"
    and j: "j < length es" and b: "is_bind c (es ! j)"
  from es j have "j = 0 \<or> j = 1 \<or> j = 2 \<or> j = 3" by auto
  with es b have "j = 2" by auto
  with es have "1 < j \<and> es ! 1 = Unshare c None" by simp
  then show "\<exists>i<j. es ! i = Unshare c None" by blast
qed

section \<open>The program on the scenarios\<close>

lemmas run_defs =
  main_def choose_command_def join_and_launch_def join_simple_def enter_or_die_def
  enterNamespace_def setns_and_close_def open_pid_handle_def bind_pid_def launch_def run_error_def
  sys_open_def sys_unshare_def sys_setns_def ns_path_def show_int_def show_nat.simps digit_char_def
  nsMap_def Command_def filepath_Base_def Let_def

lemmas world_defs =
  cooperative_def no_such_process_def unprivileged_def child_exits_def open_fds_def request_def
  every_kind_def scenario_A_def scenario_B_def scenario_B_bare_def scenario_C_def

lemma every_kind_run:
  "main cooperative every_kind =
     ([LockOSThread,
       Open ''/proc/4242/ns/uts'' (Inr 3), Setns 3 CLONE_NEWUTS None, Close 3,
       Open ''/proc/4242/ns/net'' (Inr 3), Setns 3 CLONE_NEWNET None, Close 3,
       Open ''/proc/4242/ns/ipc'' (Inr 3), Setns 3 CLONE_NEWIPC None, Close 3,
       Open ''/proc/4242/ns/pid'' (Inr 3),
       Open ''/proc/4242/ns/mnt'' (Inr 4), Unshare CLONE_NEWNS None, Setns 4 CLONE_NEWNS None, Close 4,
       Setns 3 CLONE_NEWPID None,
       Run \<lparr>Path = ''/bin/ls'', Args = [''/bin/ls''], StdioInherited = True, SysProcAttr = None\<rparr>
         (ChildExited 0),
       Close 3, UnlockOSThread],
      Exited 0)"
  by (simp add: run_defs world_defs)

lemma scenario_A_run:
  "main cooperative scenario_A =
     ([LockOSThread,
       Open ''/proc/4242/ns/uts'' (Inr 3), Setns 3 CLONE_NEWUTS None, Close 3,
       Open ''/proc/4242/ns/net'' (Inr 3), Setns 3 CLONE_NEWNET None, Close 3,
       Open ''/proc/4242/ns/pid'' (Inr 3),
       Exec ''/bin/ls'' [''/bin/ls''] [''PATH=/bin''] None],
      Replaced ''/bin/ls'' [''/bin/ls''] [''PATH=/bin''])"
  by (simp add: run_defs world_defs)

lemma scenario_A_unprivileged:
  "main unprivileged scenario_A =
     ([LockOSThread,
       Open ''/proc/4242/ns/uts'' (Inr 3),
       Setns 3 CLONE_NEWUTS (Some ''operation not permitted''),
       Close 3,
       LogFatalf ''Failed to enter uts namespace: setns for uts failed: operation not permitted''],
      Exited 1)"
  by (simp add: run_defs world_defs)

lemma scenario_B_run:
  "main cooperative scenario_B =
     ([LockOSThread,
       Open ''/proc/4242/ns/pid'' (Inr 3),
       Setns 3 CLONE_NEWPID None,
       Stdout (advisory @ [CHR 0x0A]),
       Run \<lparr>Path = ''/bin/echo'', Args = [''/bin/echo'', ''hi''], StdioInherited = True,
             SysProcAttr = None\<rparr> (ChildExited 0),
       Close 3, UnlockOSThread],
      Exited 0)"
  by (simp add: run_defs world_defs)

lemma scenario_B_bare_run:
  "main cooperative scenario_B_bare =
     ([LockOSThread,
       Open ''/proc/4242/ns/pid'' (Inr 3),
       Setns 3 CLONE_NEWPID None,
       Stdout (advisory @ [CHR 0x0A]),
       Run \<lparr>Path = ''/bin/echo'', Args = [''echo'', ''hi''], StdioInherited = True,
             SysProcAttr = None\<rparr> (ChildExited 0),
       Close 3, UnlockOSThread],
      Exited 0)"
  by (simp add: run_defs world_defs)

lemma scenario_B_unprivileged:
  "main unprivileged scenario_B =
     ([LockOSThread,
       Open ''/proc/4242/ns/pid'' (Inr 3),
       Setns 3 CLONE_NEWPID (Some ''operation not permitted''),
       BuiltinPrintln ''setns for pid failed: %v'' ''operation not permitted''],
      Exited 1)"
  by (simp add: run_defs world_defs)

lemma scenario_B_child_fails:
  "main (child_exits 2) scenario_B =
     ([LockOSThread,
       Open ''/proc/4242/ns/pid'' (Inr 3),
       Setns 3 CLONE_NEWPID None,
       Stdout (advisory @ [CHR 0x0A]),
       Run \<lparr>Path = ''/bin/echo'', Args = [''/bin/echo'', ''hi''], StdioInherited = True,
             SysProcAttr = None\<rparr> (ChildExited 2),
       Stderr ''exec failed: exit status 2\<newline>''],
      Exited 1)"
  by (simp add: run_defs world_defs)

lemma scenario_C_run:
  "main no_such_process scenario_C =
     ([LockOSThread,
       Open ''/proc/99999/ns/pid'' (Inl ''open /proc/99999/ns/pid: no such file or directory''),
       Stdout ''open %s: %w /proc/99999/ns/pid open /proc/99999/ns/pid: no such file or directory\<newline>''],
      Exited 1)"
  by (simp add: run_defs world_defs)

lemma scenario_fields:
  "pid every_kind = 4242" "pid scenario_A = 4242" "pid scenario_B = 4242" "pid scenario_C = 99999"
  "pidNs every_kind" "\<not> pidNs scenario_A" "pidNs scenario_B" "\<not> pidNs scenario_C"
  "mntNs every_kind" "\<not> mntNs scenario_A" "\<not> mntNs scenario_B" "mntNs scenario_C"
  "\<not> utsNs scenario_C" "\<not> netNs scenario_C" "\<not> ipcNs scenario_C"
  "pidNs scenario_B_bare" "\<not> mntNs scenario_B_bare"
  by (simp_all add: world_defs)

lemma started_scenarios:
  "started k h scenario_B =
     \<lparr>Path = ''/bin/echo'', Args = [''/bin/echo'', ''hi''], StdioInherited = True, SysProcAttr = None\<rparr>"
  "started cooperative h scenario_B_bare =
     \<lparr>Path = ''/bin/echo'', Args = [''echo'', ''hi''], StdioInherited = True, SysProcAttr = None\<rparr>"
  by (simp_all add: world_defs started_def cmd_at_run_def choose_command_def Command_def
      filepath_Base_def Let_def)

lemma pid_paths:
  "ns_path 4242 ''pid'' = ''/proc/4242/ns/pid''" "ns_path 99999 ''pid'' = ''/proc/99999/ns/pid''"
  by (simp_all add: ns_path_def show_int_def show_nat.simps digit_char_def)

lemma valid_scenarios:
  "valid every_kind" "valid scenario_A" "valid scenario_B" "valid scenario_C" "valid scenario_B_bare"
  by (simp_all add: valid_def choose_command_def world_defs)

section \<open>The claims\<close>

subsection \<open>C1: the order of the binds\<close>

text \<open>
  Claim C1. For every invocation in which a non-empty subset of UTS, network and IPC is
  requested together with the mount and/or PID namespace, every bind of a UTS, network
  or IPC namespace occurs before the mount-namespace bind, and the mount-namespace
  bind occurs before the PID-namespace bind. The theorem holds for every kernel and
  every invocation, whatever is requested: in the trace of \<open>main\<close> every simple bind
  stands before every mount bind, every mount bind before every PID bind, and every
  simple bind before every PID bind.
\<close>

theorem join_order:
  "all_before is_simple_bind (is_bind CLONE_NEWNS) (fst (main k iv)) \<and>
   all_before (is_bind CLONE_NEWNS) (is_bind CLONE_NEWPID) (fst (main k iv)) \<and>
   all_before is_simple_bind (is_bind CLONE_NEWPID) (fst (main k iv))"
proof -
  from main_layout [of k iv] obtain a m d where
    tr: "fst (main k iv) = a @ m @ d"
    and a: "binds_within {CLONE_NEWUTS, CLONE_NEWNET, CLONE_NEWIPC} a"
    and m: "binds_within {CLONE_NEWNS} m"
    and d: "binds_within {CLONE_NEWPID} d" by blast
  have a_ns: "\<forall>e\<in>set a. \<not> is_bind CLONE_NEWNS e"
    using a by (rule binds_within_no_bind) (simp add: clone_flags)
  have a_pid: "\<forall>e\<in>set a. \<not> is_bind CLONE_NEWPID e"
    using a by (rule binds_within_no_bind) (simp add: clone_flags)
  have m_pid: "\<forall>e\<in>set m. \<not> is_bind CLONE_NEWPID e"
    using m by (rule binds_within_no_bind) (simp add: clone_flags)
  have m_simple: "\<forall>e\<in>set m. \<not> is_simple_bind e"
    using binds_within_no_bind [OF m, of CLONE_NEWUTS] binds_within_no_bind [OF m, of CLONE_NEWNET]
      binds_within_no_bind [OF m, of CLONE_NEWIPC]
    by (simp add: is_simple_bind_def clone_flags)
  have d_simple: "\<forall>e\<in>set d. \<not> is_simple_bind e"
    using binds_within_no_bind [OF d, of CLONE_NEWUTS] binds_within_no_bind [OF d, of CLONE_NEWNET]
      binds_within_no_bind [OF d, of CLONE_NEWIPC]
    by (simp add: is_simple_bind_def clone_flags)
  have d_ns: "\<forall>e\<in>set d. \<not> is_bind CLONE_NEWNS e"
    using d by (rule binds_within_no_bind) (simp add: clone_flags)
  have "all_before is_simple_bind (is_bind CLONE_NEWNS) (a @ (m @ d))"
    using a_ns m_simple d_simple by (intro all_before_split) auto
  moreover have "all_before (is_bind CLONE_NEWNS) (is_bind CLONE_NEWPID) ((a @ m) @ d)"
    using a_pid m_pid d_ns by (intro all_before_split) auto
  moreover have "all_before is_simple_bind (is_bind CLONE_NEWPID) ((a @ m) @ d)"
    using a_pid m_pid d_simple by (intro all_before_split) auto
  ultimately show ?thesis by (simp add: tr)
qed

text \<open>
  With every kind requested and a kernel that grants everything, the IPC bind is event
  8, the mount bind event 13 and the PID bind event 15.
\<close>

theorem join_order_witness:
  "is_simple_bind (fst (main cooperative every_kind) ! 8) \<and>
   is_bind CLONE_NEWNS (fst (main cooperative every_kind) ! 13) \<and>
   is_bind CLONE_NEWPID (fst (main cooperative every_kind) ! 15) \<and>
   all_before is_simple_bind (is_bind CLONE_NEWNS) (fst (main cooperative every_kind)) \<and>
   all_before (is_bind CLONE_NEWNS) (is_bind CLONE_NEWPID) (fst (main cooperative every_kind))"
  using join_order [of cooperative every_kind]
  by (simp add: every_kind_run is_simple_bind_def)

subsection \<open>C2: who binds the PID namespace\<close>

text \<open>
  Claim C2 says that in fork mode the spawned child performs the deferred
  PID-namespace bind before it executes the command, and that the parent does not
  perform that bind itself. In scenario B the invoking process itself calls \<open>setns\<close>
  on the handle with the PID flag (event 2, line 124) before it calls \<open>Run\<close> (event 4),
  it is the only PID bind of the run, and the command structure handed to \<open>Run\<close>
  carries no \<open>SysProcAttr\<close>: the child is given nothing to bind.
\<close>

theorem fork_child_binds_counterexample:
  "fst (main cooperative scenario_B) ! 2 = Setns 3 CLONE_NEWPID None \<and>
   fst (main cooperative scenario_B) ! 4 =
     Run \<lparr>Path = ''/bin/echo'', Args = [''/bin/echo'', ''hi''], StdioInherited = True,
           SysProcAttr = None\<rparr> (ChildExited 0) \<and>
   length (filter (is_bind CLONE_NEWPID) (fst (main cooperative scenario_B))) = 1"
  by (simp add: scenario_B_run)

text \<open>
  Claim C2, as amended. In fork mode (PID namespace requested) the invoking process
  itself performs the PID-namespace bind, successfully and through the handle it opened
  earlier on the target's PID-namespace file, before it spawns the child that executes
  the target command: every \<open>Run\<close> event of a trace belongs to an invocation that
  requested the PID namespace, and is preceded by a successful PID bind on a descriptor
  that an earlier open of \<open>/proc/<target>/ns/pid\<close> returned.
\<close>

theorem fork_bind_by_parent:
  "\<forall>j<length (fst (main k iv)). is_run (fst (main k iv) ! j) \<longrightarrow>
     pidNs iv \<and>
     (\<exists>i<j. \<exists>f. fst (main k iv) ! i = Setns f CLONE_NEWPID None \<and>
        (\<exists>l<i. fst (main k iv) ! l = Open (ns_path (pid iv) ''pid'') (Inr f)))"
proof (intro allI impI)
  fix j
  let ?tr = "fst (main k iv)"
  assume j: "j < length ?tr" and r: "is_run (?tr ! j)"
  then have "list_ex is_launch ?tr"
    by (auto simp: list_ex_iff is_launch_def)
  then obtain h1 f e3 pre post where
    v: "valid iv"
    and js: "join_simple k [LockOSThread] iv = (h1, None)"
    and pre: "pre = h1 @ Open (pid_path iv) (Inr f) # e3 @ pid_events iv f"
    and tr: "?tr = pre @ launch_event k pre iv # post"
    and nl: "\<not> list_ex is_launch pre"
    and nlp: "\<not> list_ex is_launch post"
    and out: "pidNs iv \<longrightarrow> snd (main k iv) = Exited (fork_status (k_run k pre (started k pre iv)))"
    by (rule launch_anatomy)
  from only_index [OF tr nl nlp j] r have jj: "j = length pre"
    by (simp add: is_launch_def)
  with tr r have "is_run (launch_event k pre iv)" by simp
  then have p: "pidNs iv"
    by (auto simp: launch_event_def Let_def split: if_splits)
  let ?h3 = "h1 @ Open (pid_path iv) (Inr f) # e3"
  from p pre have pre': "pre = ?h3 @ Setns f CLONE_NEWPID None # (if mntNs iv then [] else [Stdout (advisory @ [CHR 0x0A])])"
    by (simp add: pid_events_def)
  have i: "length ?h3 < j" using jj pre' by simp
  have ti: "?tr ! length ?h3 = Setns f CLONE_NEWPID None"
    unfolding tr pre' by (simp add: nth_append)
  have l: "length h1 < length ?h3" by simp
  have tl: "?tr ! length h1 = Open (ns_path (pid iv) ''pid'') (Inr f)"
    unfolding tr pre' by (simp add: nth_append pid_path_def)
  from p i ti l tl show "pidNs iv \<and>
     (\<exists>i<j. \<exists>f. ?tr ! i = Setns f CLONE_NEWPID None \<and>
        (\<exists>l<i. ?tr ! l = Open (ns_path (pid iv) ''pid'') (Inr f)))"
    by blast
qed

theorem fork_bind_by_parent_witness:
  "is_run (fst (main cooperative scenario_B) ! 4) \<and>
   pidNs scenario_B \<and>
   fst (main cooperative scenario_B) ! 2 = Setns 3 CLONE_NEWPID None \<and>
   fst (main cooperative scenario_B) ! 1 = Open (ns_path (pid scenario_B) ''pid'') (Inr 3)"
proof -
  have "4 < length (fst (main cooperative scenario_B))"
    and "is_run (fst (main cooperative scenario_B) ! 4)"
    by (simp_all add: scenario_B_run)
  with fork_bind_by_parent [of cooperative scenario_B] have "pidNs scenario_B" by blast
  then show ?thesis
    by (simp add: scenario_B_run scenario_fields pid_paths)
qed

subsection \<open>C3: the handle is opened before the mount bind\<close>

text \<open>
  Claim C3. Whenever both the mount and the PID namespace are requested, the handle
  (file descriptor) to the target's PID-namespace file is opened before the
  mount-namespace bind occurs. The theorem holds for every invocation, in particular
  for those that request both: every mount bind in the trace of \<open>main\<close> is preceded by
  a successful open of \<open>/proc/<target>/ns/pid\<close>.
\<close>

theorem handle_before_mount_bind:
  "\<forall>j<length (fst (main k iv)). is_bind CLONE_NEWNS (fst (main k iv) ! j) \<longrightarrow>
     (\<exists>i<j. \<exists>f. fst (main k iv) ! i = Open (ns_path (pid iv) ''pid'') (Inr f))"
proof (intro allI impI)
  fix j
  let ?tr = "fst (main k iv)"
  assume j: "j < length ?tr" and b: "is_bind CLONE_NEWNS (?tr ! j)"
  have v: "valid iv"
  proof (rule ccontr)
    assume "\<not> valid iv"
    then have "?tr = [Usage]" by (simp add: main_invalid)
    with j b show False by simp
  qed
  have m: "join_and_launch k iv (fst (choose_command iv)) (snd (choose_command iv)) = (?tr, snd (main k iv))"
    using main_valid [OF v, of k] by simp
  from j b have ex: "\<exists>e\<in>set ?tr. is_bind CLONE_NEWNS e" by auto
  from past_handle [OF m] show "\<exists>i<j. \<exists>f. ?tr ! i = Open (ns_path (pid iv) ''pid'') (Inr f)"
  proof (elim disjE exE conjE)
    fix h1 o1
    assume js: "join_simple k [LockOSThread] iv = (h1, Some o1)" and tr: "?tr = h1"
    from join_simple_binds [OF js] no_mount_bind tr ex show ?thesis by fastforce
  next
    fix h1 err
    assume js: "join_simple k [LockOSThread] iv = (h1, None)"
      and tr: "?tr = h1 @ [Open (pid_path iv) (Inl err),
                       Stdout (''open %s: %w '' @ pid_path iv @ '' '' @ err @ [CHR 0x0A])]"
    from join_simple_binds [OF js] obtain e1 where
      "h1 = [LockOSThread] @ e1" "binds_within {CLONE_NEWUTS, CLONE_NEWNET, CLONE_NEWIPC} e1" by blast
    with no_mount_bind [of e1] have "\<forall>e\<in>set h1. \<not> is_bind CLONE_NEWNS e" by simp
    with ex show ?thesis unfolding tr by auto
  next
    fix h1 f rest
    assume js: "join_simple k [LockOSThread] iv = (h1, None)"
      and tr: "?tr = h1 @ Open (pid_path iv) (Inr f) # rest"
    from join_simple_binds [OF js] obtain e1 where
      "h1 = [LockOSThread] @ e1" "binds_within {CLONE_NEWUTS, CLONE_NEWNET, CLONE_NEWIPC} e1" by blast
    with no_mount_bind [of e1] have n: "\<forall>e\<in>set h1. \<not> is_bind CLONE_NEWNS e" by simp
    have "length h1 < j"
      by (rule after_prefix [OF tr n _ j b]) simp
    moreover have "?tr ! length h1 = Open (ns_path (pid iv) ''pid'') (Inr f)"
      unfolding tr by (simp add: pid_path_def)
    ultimately show ?thesis by blast
  qed
qed

theorem handle_before_mount_bind_witness:
  "is_bind CLONE_NEWNS (fst (main cooperative every_kind) ! 13) \<and>
   (\<exists>i<13. \<exists>f. fst (main cooperative every_kind) ! i = Open (ns_path (pid every_kind) ''pid'') (Inr f)) \<and>
   fst (main cooperative every_kind) ! 10 = Open ''/proc/4242/ns/pid'' (Inr 3)"
proof -
  have "13 < length (fst (main cooperative every_kind))"
    and "is_bind CLONE_NEWNS (fst (main cooperative every_kind) ! 13)"
    by (simp_all add: every_kind_run)
  with handle_before_mount_bind [of cooperative every_kind]
  have "\<exists>i<13. \<exists>f. fst (main cooperative every_kind) ! i = Open (ns_path (pid every_kind) ''pid'') (Inr f)"
    by blast
  then show ?thesis
    by (simp add: every_kind_run)
qed

subsection \<open>C4: fork or replace\<close>

text \<open>
  Claim C4. For every combination of requested namespace kinds, the \<open>needsFork\<close>
  decision is true if and only if the PID namespace was requested, and this
  deterministically selects fork mode (spawn a child and wait) versus replace mode
  (replace the current process image). Whenever the PID block hands a value of
  \<open>needsFork\<close> on to the launch, that value is the PID selector; every launch event of
  a trace is a \<open>Run\<close> exactly when the PID namespace was requested and an \<open>Exec\<close>
  exactly when it was not; and a valid invocation none of whose steps fails launches
  exactly once.
\<close>

theorem mode_by_pid_request:
  "(\<forall>h f h' needsFork. bind_pid k h iv f = (h', Inr needsFork) \<longrightarrow> needsFork = pidNs iv) \<and>
   (\<forall>e\<in>set (fst (main k iv)). is_launch e \<longrightarrow> (is_run e \<longleftrightarrow> pidNs iv) \<and> (is_exec e \<longleftrightarrow> \<not> pidNs iv)) \<and>
   (valid iv \<and> clean (fst (main k iv)) \<longrightarrow> length (filter is_launch (fst (main k iv))) = 1)"
proof (intro conjI allI impI ballI)
  fix h f h' needsFork
  assume "bind_pid k h iv f = (h', Inr needsFork)"
  from bind_pid_Inr [OF this] show "needsFork = pidNs iv" by simp
next
  fix e
  let ?tr = "fst (main k iv)"
  assume e: "e \<in> set ?tr" and l: "is_launch e"
  then have "list_ex is_launch ?tr" by (auto simp: list_ex_iff)
  then obtain h1 f e3 pre post where
    v: "valid iv"
    and js: "join_simple k [LockOSThread] iv = (h1, None)"
    and pre: "pre = h1 @ Open (pid_path iv) (Inr f) # e3 @ pid_events iv f"
    and tr: "?tr = pre @ launch_event k pre iv # post"
    and nl: "\<not> list_ex is_launch pre"
    and nlp: "\<not> list_ex is_launch post"
    and out: "pidNs iv \<longrightarrow> snd (main k iv) = Exited (fork_status (k_run k pre (started k pre iv)))"
    by (rule launch_anatomy)
  from e l tr nl nlp have "e = launch_event k pre iv" by (auto simp: list_ex_iff)
  then show "is_run e \<longleftrightarrow> pidNs iv" and "is_exec e \<longleftrightarrow> \<not> pidNs iv"
    by (auto simp: launch_event_def Let_def is_run_def is_exec_def)
next
  let ?tr = "fst (main k iv)"
  assume "valid iv \<and> clean ?tr"
  then have v: "valid iv" and c: "clean ?tr" by simp_all
  from v c obtain h1 f h3 where
    m: "main k iv = launch k (h3 @ pid_events iv f) iv f (pidNs iv) (fst (choose_command iv)) (snd (choose_command iv))"
    by (rule clean_main_launched)
  obtain tr out where mo: "launch k (h3 @ pid_events iv f) iv f (pidNs iv) (fst (choose_command iv)) (snd (choose_command iv)) = (tr, out)"
    by (cases "launch k (h3 @ pid_events iv f) iv f (pidNs iv) (fst (choose_command iv)) (snd (choose_command iv))")
  have "list_ex is_launch tr"
  proof (cases "pidNs iv")
    case True
    with mo have "launch k (h3 @ pid_events iv f) iv f True (fst (choose_command iv)) (snd (choose_command iv)) = (tr, out)"
      by simp
    from launch_fork [OF this] show ?thesis by auto
  next
    case False
    with mo have "launch k (h3 @ pid_events iv f) iv f False (fst (choose_command iv)) (snd (choose_command iv)) = (tr, out)"
      by simp
    from launch_replace [OF this] show ?thesis by auto
  qed
  with m mo have "list_ex is_launch ?tr" by simp
  then obtain h1 f e3 pre post where
    tr: "?tr = pre @ launch_event k pre iv # post"
    and nl: "\<not> list_ex is_launch pre"
    and nlp: "\<not> list_ex is_launch post"
    and more: "valid iv" "join_simple k [LockOSThread] iv = (h1, None)"
      "pre = h1 @ Open (pid_path iv) (Inr f) # e3 @ pid_events iv f"
      "pidNs iv \<longrightarrow> snd (main k iv) = Exited (fork_status (k_run k pre (started k pre iv)))"
    by (rule launch_anatomy)
  have "is_launch (launch_event k pre iv)" by (simp add: launch_event_def Let_def)
  moreover from nl have "filter is_launch pre = []" by (auto simp: list_ex_iff filter_empty_conv)
  moreover from nlp have "filter is_launch post = []" by (auto simp: list_ex_iff filter_empty_conv)
  ultimately show "length (filter is_launch ?tr) = 1"
    unfolding tr by simp
qed

theorem mode_by_pid_request_witness:
  "valid scenario_B \<and> clean (fst (main cooperative scenario_B)) \<and> pidNs scenario_B \<and>
   length (filter is_launch (fst (main cooperative scenario_B))) = 1 \<and>
   is_run (fst (main cooperative scenario_B) ! 4) \<and>
   valid scenario_A \<and> clean (fst (main cooperative scenario_A)) \<and> \<not> pidNs scenario_A \<and>
   length (filter is_launch (fst (main cooperative scenario_A))) = 1 \<and>
   is_exec (fst (main cooperative scenario_A) ! 8)"
proof -
  have b: "valid scenario_B \<and> clean (fst (main cooperative scenario_B))"
    and a: "valid scenario_A \<and> clean (fst (main cooperative scenario_A))"
    by (simp_all add: valid_scenarios scenario_B_run scenario_A_run)
  from mode_by_pid_request [of cooperative scenario_B] b
  have "length (filter is_launch (fst (main cooperative scenario_B))) = 1" by blast
  moreover from mode_by_pid_request [of cooperative scenario_A] a
  have "length (filter is_launch (fst (main cooperative scenario_A))) = 1" by blast
  ultimately show ?thesis
    using a b by (simp add: scenario_B_run scenario_A_run is_exec_def scenario_fields)
qed

subsection \<open>C5: fail fast\<close>

text \<open>
  Claim C5. If the open or bind for any requested namespace kind fails, no subsequent
  namespace kind is attempted (no join, open, or launch step after the failing one
  runs) and the process terminates with a non-zero exit status. In the trace of
  \<open>main\<close>, a failed open, unshare or bind at index \<open>i\<close> makes the exit status 1, and no
  event after \<open>i\<close> is an open, an unshare, a bind or a launch.
\<close>

theorem fail_fast_main:
  "\<forall>i<length (fst (main k iv)). failed_step (fst (main k iv) ! i) \<longrightarrow>
     snd (main k iv) = Exited 1 \<and>
     (\<forall>j<length (fst (main k iv)). i < j \<longrightarrow> \<not> is_step (fst (main k iv) ! j))"
proof (intro allI impI)
  fix i
  assume i: "i < length (fst (main k iv))" and f: "failed_step (fst (main k iv) ! i)"
  from i f have "\<not> clean (fst (main k iv))"
    by (auto simp: clean_def list_ex_iff)
  with main_fate [of k iv] have "snd (main k iv) = Exited 1" by blast
  moreover from main_fate [of k iv] have "fail_fast (fst (main k iv))" by blast
  from fail_fast_nth [OF this i f]
  have "\<forall>j<length (fst (main k iv)). i < j \<longrightarrow> \<not> is_step (fst (main k iv) ! j)" by blast
  ultimately show "snd (main k iv) = Exited 1 \<and>
     (\<forall>j<length (fst (main k iv)). i < j \<longrightarrow> \<not> is_step (fst (main k iv) ! j))" by blast
qed

text \<open>
  Scenario A without the privilege to bind: the UTS bind fails (event 2), what follows
  is the close of the descriptor and the diagnostic, and the network namespace is never
  touched.
\<close>

theorem fail_fast_main_witness:
  "failed_step (fst (main unprivileged scenario_A) ! 2) \<and>
   snd (main unprivileged scenario_A) = Exited 1 \<and>
   \<not> is_step (fst (main unprivileged scenario_A) ! 3) \<and>
   \<not> is_step (fst (main unprivileged scenario_A) ! 4) \<and>
   length (fst (main unprivileged scenario_A)) = 5"
proof -
  have "2 < length (fst (main unprivileged scenario_A))"
    and "failed_step (fst (main unprivileged scenario_A) ! 2)"
    by (simp_all add: scenario_A_unprivileged)
  with fail_fast_main [of unprivileged scenario_A]
  have "snd (main unprivileged scenario_A) = Exited 1 \<and>
     (\<forall>j<length (fst (main unprivileged scenario_A)). 2 < j \<longrightarrow>
        \<not> is_step (fst (main unprivileged scenario_A) ! j))"
    by blast
  then show ?thesis
    by (simp add: scenario_A_unprivileged)
qed

subsection \<open>C6: a target that does not exist, mount requested\<close>

text \<open>
  Claim C6 says that for a target process that does not exist (PID 99999) and a request
  for the mount namespace only, the operation fails with a namespace-open failure
  attributed to the mount kind. In scenario C the failing open is that of
  \<open>/proc/99999/ns/pid\<close>, the diagnostic names that path, and the mount namespace file
  is never opened.
\<close>

theorem fail_fast_missing_target_counterexample:
  "fst (main no_such_process scenario_C) =
     [LockOSThread,
      Open ''/proc/99999/ns/pid'' (Inl ''open /proc/99999/ns/pid: no such file or directory''),
      Stdout ''open %s: %w /proc/99999/ns/pid open /proc/99999/ns/pid: no such file or directory\<newline>''] \<and>
   Open ''/proc/99999/ns/mnt'' (Inl ''open /proc/99999/ns/mnt: no such file or directory'')
     \<notin> set (fst (main no_such_process scenario_C))"
  by (simp add: scenario_C_run)

text \<open>
  Claim C6, as amended. For an invocation with a target process that does not exist
  (the open of its PID-namespace file fails) requesting only the mount namespace, the
  operation fails at the open of \<open>/proc/<target>/ns/pid\<close>, which precedes the mount
  join; it prints a diagnostic with that path, terminates at once with exit status 1,
  and no namespace kind is attempted: the trace holds nothing but the thread lock, the
  failed open and the diagnostic.
\<close>

theorem missing_target_mount_only:
  assumes "valid iv" and "mntNs iv" and "\<not> utsNs iv" and "\<not> netNs iv" and "\<not> ipcNs iv"
    and "\<not> pidNs iv"
    and "k_open k [LockOSThread] (ns_path (pid iv) ''pid'') = Inl err"
  shows "main k iv =
           ([LockOSThread, Open (ns_path (pid iv) ''pid'') (Inl err),
             Stdout (''open %s: %w '' @ ns_path (pid iv) ''pid'' @ '' '' @ err @ [CHR 0x0A])],
            Exited 1)"
  using assms
  by (simp add: main_valid join_and_launch_def join_simple_def enter_or_die_def
      open_pid_handle_def sys_open_def Let_def)

theorem missing_target_mount_only_witness:
  "valid scenario_C \<and> mntNs scenario_C \<and> \<not> utsNs scenario_C \<and> \<not> netNs scenario_C \<and>
   \<not> ipcNs scenario_C \<and> \<not> pidNs scenario_C \<and>
   k_open no_such_process [LockOSThread] (ns_path (pid scenario_C) ''pid'') =
     Inl ''open /proc/99999/ns/pid: no such file or directory'' \<and>
   main no_such_process scenario_C =
     ([LockOSThread,
       Open (ns_path (pid scenario_C) ''pid'') (Inl ''open /proc/99999/ns/pid: no such file or directory''),
       Stdout (''open %s: %w '' @ ns_path (pid scenario_C) ''pid'' @ '' '' @
               ''open /proc/99999/ns/pid: no such file or directory'' @ [CHR 0x0A])],
      Exited 1)"
proof -
  have h: "valid scenario_C" "mntNs scenario_C" "\<not> utsNs scenario_C" "\<not> netNs scenario_C"
    "\<not> ipcNs scenario_C" "\<not> pidNs scenario_C"
    "k_open no_such_process [LockOSThread] (ns_path (pid scenario_C) ''pid'') =
       Inl ''open /proc/99999/ns/pid: no such file or directory''"
    by (simp_all add: valid_scenarios scenario_fields pid_paths)
      (simp add: no_such_process_def)
  from missing_target_mount_only [OF h] h show ?thesis by simp
qed

subsection \<open>C7: detach before the mount bind\<close>

text \<open>
  Claim C7. When joining the mount namespace, the caller first detaches its own mount
  namespace via a self-unshare operation before the bind to the target's mount
  namespace; if the detachment fails, the operation fails with a detach error before
  any mount bind is attempted. For \<open>enterNamespace\<close> on the kind \<open>mnt\<close>, from any
  history: every mount bind among the new events is preceded by a successful
  \<open>unshare\<close> with the mount flag, and when the \<open>unshare\<close> fails the result is the
  detach error and no mount bind is among the new events.
\<close>

theorem mnt_detach_first:
  "\<exists>es. fst (enterNamespace k h p ''mnt'') = h @ es \<and>
     (\<forall>j<length es. is_bind CLONE_NEWNS (es ! j) \<longrightarrow> (\<exists>i<j. es ! i = Unshare CLONE_NEWNS None)) \<and>
     (\<forall>err. Unshare CLONE_NEWNS (Some err) \<in> set es \<longrightarrow>
        snd (enterNamespace k h p ''mnt'') = Some (UnshareFailed err) \<and>
        \<not> list_ex (is_bind CLONE_NEWNS) es)"
proof (cases "k_open k h (ns_path p ''mnt'')")
  case (Inl err)
  then have "enterNamespace k h p ''mnt'' = (h @ [Open (ns_path p ''mnt'') (Inl err)], Some (OpenFailed ''mnt'' err))"
    by (simp add: enterNamespace_def sys_open_def Let_def)
  then show ?thesis
    by (intro exI [of _ "[Open (ns_path p ''mnt'') (Inl err)]"]) simp
next
  case (Inr f)
  note op = this
  let ?h1 = "h @ [Open (ns_path p ''mnt'') (Inr f)]"
  show ?thesis
  proof (cases "k_unshare k ?h1 CLONE_NEWNS")
    case (Some err)
    with op have "enterNamespace k h p ''mnt'' =
        (h @ [Open (ns_path p ''mnt'') (Inr f), Unshare CLONE_NEWNS (Some err), Close f],
         Some (UnshareFailed err))"
      by (simp add: enterNamespace_def sys_open_def sys_unshare_def Let_def)
    then show ?thesis
      by (intro exI [of _ "[Open (ns_path p ''mnt'') (Inr f), Unshare CLONE_NEWNS (Some err), Close f]"])
        (auto simp: nth_Cons split: nat.splits)
  next
    case None
    let ?r = "k_setns k (?h1 @ [Unshare CLONE_NEWNS None]) f CLONE_NEWNS"
    let ?es = "[Open (ns_path p ''mnt'') (Inr f), Unshare CLONE_NEWNS None, Setns f CLONE_NEWNS ?r, Close f]"
    from op None have "fst (enterNamespace k h p ''mnt'') = h @ ?es"
      by (cases ?r) (simp_all add: enterNamespace_def sys_open_def sys_unshare_def
          setns_and_close_def sys_setns_def Let_def)
    moreover have "\<forall>j<length ?es. is_bind CLONE_NEWNS (?es ! j) \<longrightarrow> (\<exists>i<j. ?es ! i = Unshare CLONE_NEWNS None)"
      by (rule mnt_success_shape) simp
    moreover have "\<forall>err. Unshare CLONE_NEWNS (Some err) \<notin> set ?es" by simp
    ultimately show ?thesis by blast
  qed
qed

theorem mnt_detach_first_witness:
  "fst (enterNamespace unprivileged [LockOSThread] 4242 ''mnt'') =
     [LockOSThread] @ [Open ''/proc/4242/ns/mnt'' (Inr 3),
        Unshare CLONE_NEWNS (Some ''operation not permitted''), Close 3] \<and>
   snd (enterNamespace unprivileged [LockOSThread] 4242 ''mnt'') =
     Some (UnshareFailed ''operation not permitted'') \<and>
   fst (enterNamespace cooperative [LockOSThread] 4242 ''mnt'') =
     [LockOSThread] @ [Open ''/proc/4242/ns/mnt'' (Inr 3),
        Unshare CLONE_NEWNS None, Setns 3 CLONE_NEWNS None, Close 3]"
  using mnt_detach_first [of unprivileged "[LockOSThread]" 4242]
    mnt_detach_first [of cooperative "[LockOSThread]" 4242]
  by (simp add: run_defs world_defs)

subsection \<open>C8: the advisory does not stop the run\<close>

text \<open>
  Claim C8 says that for every invocation that requests the PID namespace but not the
  mount namespace, an advisory message is emitted and the operation still proceeds to
  launch the command. Scenario B is such an invocation, and it passes the argument
  check; run by a caller without the privilege to bind, its \<open>setns\<close> of line 124
  fails, lines 125 and 126 end the process with status 1, and neither the advisory of
  line 130 nor a launch is in the trace.
\<close>

theorem advisory_always_counterexample:
  "valid scenario_B \<and> pidNs scenario_B \<and> \<not> mntNs scenario_B \<and>
   main unprivileged scenario_B =
     ([LockOSThread,
       Open ''/proc/4242/ns/pid'' (Inr 3),
       Setns 3 CLONE_NEWPID (Some ''operation not permitted''),
       BuiltinPrintln ''setns for pid failed: %v'' ''operation not permitted''],
      Exited 1)"
  by (simp add: valid_scenarios scenario_fields scenario_B_unprivileged)

text \<open>
  Claim C8, as amended. For every invocation that passes argument validation, requests
  the PID namespace but not the mount namespace, and none of whose namespace steps
  (opens, unshare, binds) fails, the advisory message is emitted and the operation
  still proceeds to launch the command (the advisory is non-fatal and does not abort):
  the advisory is printed and the very next event is the \<open>Run\<close> of the command, as
  \<open>exec.Command\<close> built it from the chosen command and its arguments.
\<close>

theorem advisory_then_launch:
  assumes "valid iv" and "pidNs iv" and "\<not> mntNs iv" and "clean (fst (main k iv))"
  shows "\<exists>pre r post. fst (main k iv) =
           pre @ [Stdout (advisory @ [CHR 0x0A]),
                  Run (started k (pre @ [Stdout (advisory @ [CHR 0x0A])]) iv) r] @ post"
proof -
  from assms(1,4) obtain h1 f h3 where
    m: "main k iv = launch k (h3 @ pid_events iv f) iv f (pidNs iv) (fst (choose_command iv)) (snd (choose_command iv))"
    by (rule clean_main_launched)
  let ?h4 = "h3 @ pid_events iv f"
  obtain tr out where mo: "main k iv = (tr, out)" by (cases "main k iv")
  with m assms(2) have "launch k ?h4 iv f True (fst (choose_command iv)) (snd (choose_command iv)) = (tr, out)"
    by simp
  from launch_fork [OF this] obtain post where
    "tr = ?h4 @ Run (started k ?h4 iv) (k_run k ?h4 (started k ?h4 iv)) # post"
    by (auto simp: started_def)
  moreover from assms(2,3) have
    "?h4 = (h3 @ [Setns f CLONE_NEWPID None]) @ [Stdout (advisory @ [CHR 0x0A])]"
    by (simp add: pid_events_def)
  ultimately have "fst (main k iv) =
     (h3 @ [Setns f CLONE_NEWPID None]) @
     [Stdout (advisory @ [CHR 0x0A]),
      Run (started k ((h3 @ [Setns f CLONE_NEWPID None]) @ [Stdout (advisory @ [CHR 0x0A])]) iv)
        (k_run k ?h4 (started k ?h4 iv))] @ post"
    using mo by simp
  then show ?thesis by blast
qed

text \<open>
  Scenario B with the bare name \<open>echo\<close>: the command that is run has the path the
  search found and the arguments as they were given.
\<close>

theorem advisory_then_launch_witness:
  "valid scenario_B_bare \<and> pidNs scenario_B_bare \<and> \<not> mntNs scenario_B_bare \<and>
   clean (fst (main cooperative scenario_B_bare)) \<and>
   fst (main cooperative scenario_B_bare) =
     [LockOSThread, Open ''/proc/4242/ns/pid'' (Inr 3), Setns 3 CLONE_NEWPID None] @
     [Stdout (advisory @ [CHR 0x0A]),
      Run \<lparr>Path = ''/bin/echo'', Args = [''echo'', ''hi''], StdioInherited = True,
            SysProcAttr = None\<rparr> (ChildExited 0)] @
     [Close 3, UnlockOSThread]"
proof -
  have h: "valid scenario_B_bare" "pidNs scenario_B_bare" "\<not> mntNs scenario_B_bare"
    "clean (fst (main cooperative scenario_B_bare))"
    by (simp_all add: valid_scenarios scenario_B_bare_run scenario_fields)
  from advisory_then_launch [OF h] h show ?thesis
    by (simp add: scenario_B_bare_run)
qed

subsection \<open>C9: the exit status after a fork-mode launch\<close>

text \<open>
  Claim C9 says that a successful fork-mode launch returns the launched child's exit
  status as its own, for every exit status the child may produce. In scenario B with a
  child that ends with status 2, \<open>main\<close> exits with status 1.
\<close>

theorem child_status_counterexample:
  "fst (main (child_exits 2) scenario_B) ! 4 =
     Run \<lparr>Path = ''/bin/echo'', Args = [''/bin/echo'', ''hi''], StdioInherited = True,
           SysProcAttr = None\<rparr> (ChildExited 2) \<and>
   snd (main (child_exits 2) scenario_B) = Exited 1 \<and>
   snd (main (child_exits 2) scenario_B) \<noteq> Exited 2"
  by (simp add: scenario_B_child_fails)

text \<open>
  Claim C9, as amended. After a fork-mode launch whose child ends with status 0 the
  invocation exits with status 0; when the child ends with any other status the
  invocation exits with status 1.
\<close>

theorem child_status_collapsed:
  "\<forall>c s. Run c (ChildExited s) \<in> set (fst (main k iv)) \<longrightarrow>
     snd (main k iv) = Exited (if s = 0 then 0 else 1)"
proof (intro allI impI)
  fix c s
  let ?tr = "fst (main k iv)"
  assume r: "Run c (ChildExited s) \<in> set ?tr"
  then have "list_ex is_launch ?tr"
    by (auto simp: list_ex_iff intro!: bexI [of _ "Run c (ChildExited s)"])
  then obtain h1 f e3 pre post where
    v: "valid iv"
    and js: "join_simple k [LockOSThread] iv = (h1, None)"
    and pre: "pre = h1 @ Open (pid_path iv) (Inr f) # e3 @ pid_events iv f"
    and tr: "?tr = pre @ launch_event k pre iv # post"
    and nl: "\<not> list_ex is_launch pre"
    and nlp: "\<not> list_ex is_launch post"
    and out: "pidNs iv \<longrightarrow> snd (main k iv) = Exited (fork_status (k_run k pre (started k pre iv)))"
    by (rule launch_anatomy)
  from nl have a: "Run c (ChildExited s) \<notin> set pre" by (auto simp: list_ex_iff)
  from nlp have b: "Run c (ChildExited s) \<notin> set post" by (auto simp: list_ex_iff)
  from r tr a b have e: "launch_event k pre iv = Run c (ChildExited s)" by auto
  then have p: "pidNs iv" and "k_run k pre (started k pre iv) = ChildExited s"
    by (auto simp: launch_event_def Let_def split: if_splits)
  with out show "snd (main k iv) = Exited (if s = 0 then 0 else 1)"
    by (simp add: fork_status_def)
qed

theorem child_status_collapsed_witness:
  "Run (started (child_exits 2) [] scenario_B) (ChildExited 2) \<in> set (fst (main (child_exits 2) scenario_B)) \<and>
   snd (main (child_exits 2) scenario_B) = Exited 1 \<and>
   Run (started cooperative [] scenario_B) (ChildExited 0) \<in> set (fst (main cooperative scenario_B)) \<and>
   snd (main cooperative scenario_B) = Exited 0"
proof -
  have a: "Run (started (child_exits 2) [] scenario_B) (ChildExited 2) \<in> set (fst (main (child_exits 2) scenario_B))"
    and b: "Run (started cooperative [] scenario_B) (ChildExited 0) \<in> set (fst (main cooperative scenario_B))"
    by (simp_all add: scenario_B_child_fails scenario_B_run started_scenarios)
  from child_status_collapsed [of "child_exits 2" scenario_B] a
  have "snd (main (child_exits 2) scenario_B) = Exited (if (2::int) = 0 then 0 else 1)" by blast
  moreover from child_status_collapsed [of cooperative scenario_B] b
  have "snd (main cooperative scenario_B) = Exited (if (0::int) = 0 then 0 else 1)" by blast
  ultimately show ?thesis using a b by simp
qed

subsection \<open>C10: the handle is opened whatever was requested\<close>

text \<open>
  Claim C10 says that on every invocation that passes argument validation the program
  opens the target's PID-namespace file \<open>/proc/<target>/ns/pid\<close>. Scenario A passes
  the argument check; run by a caller without the privilege to bind, its UTS join
  fails, \<open>log.Fatalf\<close> of line 92 ends the process with status 1, and the open of line
  109 is never reached.
\<close>

theorem pid_handle_skipped_counterexample:
  "valid scenario_A \<and>
   main unprivileged scenario_A =
     ([LockOSThread,
       Open ''/proc/4242/ns/uts'' (Inr 3),
       Setns 3 CLONE_NEWUTS (Some ''operation not permitted''),
       Close 3,
       LogFatalf ''Failed to enter uts namespace: setns for uts failed: operation not permitted''],
      Exited 1) \<and>
   \<not> list_ex (is_open_of ''/proc/4242/ns/pid'') (fst (main unprivileged scenario_A))"
  by (simp add: valid_scenarios scenario_A_unprivileged is_open_of_def)

text \<open>
  Claim C10, as amended. On every invocation that passes argument validation and
  whose UTS, network and IPC joins (lines 90 to 104, those that were requested) all
  succeed, the program opens the target's PID-namespace file \<open>/proc/<target>/ns/pid\<close>
  unconditionally, even when the PID namespace was not requested; if that open fails
  (for example, the target process does not exist or is not inspectable), the program
  exits with status 1 regardless of which namespace kinds were actually requested.
  There is no condition on any selector: the event that follows the simple joins is the
  open of the handle, and when the kernel refuses it the run ends there with the
  diagnostic and status 1.
\<close>

theorem pid_handle_unconditional:
  assumes "valid iv" and "join_simple k [LockOSThread] iv = (h1, None)"
  shows "\<exists>rest. fst (main k iv) =
           h1 @ Open (ns_path (pid iv) ''pid'') (k_open k h1 (ns_path (pid iv) ''pid'')) # rest \<and>
           (\<forall>err. k_open k h1 (ns_path (pid iv) ''pid'') = Inl err \<longrightarrow>
              snd (main k iv) = Exited 1 \<and>
              rest = [Stdout (''open %s: %w '' @ ns_path (pid iv) ''pid'' @ '' '' @ err @ [CHR 0x0A])])"
proof -
  obtain tr out where mo: "main k iv = (tr, out)" by (cases "main k iv")
  with main_valid [OF assms(1), of k]
  have m: "join_and_launch k iv (fst (choose_command iv)) (snd (choose_command iv)) = (tr, out)" by simp
  from past_handle [OF m] assms(2) mo show ?thesis
    by (auto simp: pid_path_def)
qed

theorem pid_handle_unconditional_witness:
  "valid scenario_A \<and> \<not> pidNs scenario_A \<and>
   join_simple cooperative [LockOSThread] scenario_A =
     ([LockOSThread,
       Open ''/proc/4242/ns/uts'' (Inr 3), Setns 3 CLONE_NEWUTS None, Close 3,
       Open ''/proc/4242/ns/net'' (Inr 3), Setns 3 CLONE_NEWNET None, Close 3], None) \<and>
   fst (main cooperative scenario_A) ! 7 = Open ''/proc/4242/ns/pid'' (Inr 3) \<and>
   valid scenario_C \<and> \<not> pidNs scenario_C \<and>
   join_simple no_such_process [LockOSThread] scenario_C = ([LockOSThread], None) \<and>
   fst (main no_such_process scenario_C) ! 1 =
     Open ''/proc/99999/ns/pid'' (Inl ''open /proc/99999/ns/pid: no such file or directory'') \<and>
   snd (main no_such_process scenario_C) = Exited 1"
proof -
  have ja: "join_simple cooperative [LockOSThread] scenario_A =
     ([LockOSThread,
       Open ''/proc/4242/ns/uts'' (Inr 3), Setns 3 CLONE_NEWUTS None, Close 3,
       Open ''/proc/4242/ns/net'' (Inr 3), Setns 3 CLONE_NEWNET None, Close 3], None)"
    by (simp add: run_defs world_defs)
  have jc: "join_simple no_such_process [LockOSThread] scenario_C = ([LockOSThread], None)"
    by (simp add: run_defs world_defs)
  have kc: "k_open no_such_process [LockOSThread] (ns_path (pid scenario_C) ''pid'') =
       Inl ''open /proc/99999/ns/pid: no such file or directory''"
    by (simp add: scenario_fields pid_paths no_such_process_def)
  from pid_handle_unconditional [OF valid_scenarios(4) jc, of ] kc
  have "snd (main no_such_process scenario_C) = Exited 1" by auto
  moreover from pid_handle_unconditional [OF valid_scenarios(2) ja]
  have "\<exists>r. fst (main cooperative scenario_A) ! 7 = Open (ns_path (pid scenario_A) ''pid'') r"
    by (auto simp: nth_append)
  ultimately show ?thesis
    using ja jc by (simp add: valid_scenarios scenario_A_run scenario_C_run scenario_fields)
qed

end
